theory Spec2Isabelle
  imports Main "HOL-Library.Char_ord" "HOL-Library.List_Lexorder"
begin

section \<open>Python values, their text and dictionaries\<close>

text \<open>
  The values that occur in a row of \<^verbatim>\<open>info_services.fos\<close> and in a field of a
  destination record: \<^verbatim>\<open>None\<close>, booleans, integers and strings. A Python \<^verbatim>\<open>str\<close> is a
  \<open>string\<close> whose characters are the code points below 256.
\<close>

datatype pyval = PNone | PBool bool | PInt int | PStr string

text \<open>
  Python's \<^verbatim>\<open>==\<close> (and hash) on these values, as a dictionary uses it for its keys:
  \<^verbatim>\<open>True == 1\<close> and \<^verbatim>\<open>False == 0\<close>, everything else is equal only to itself.
\<close>

fun py_key :: "pyval \<Rightarrow> pyval" where
  "py_key (PBool b) = PInt (if b then 1 else 0)"
| "py_key v = v"

definition py_eq :: "pyval \<Rightarrow> pyval \<Rightarrow> bool" where
  "py_eq a b = (py_key a = py_key b)"

definition hex_digit :: "nat \<Rightarrow> char" where
  "hex_digit n = ''0123456789abcdef'' ! n"

fun str_nat :: "nat \<Rightarrow> string" where
  "str_nat n = (if n < 10 then [hex_digit n] else str_nat (n div 10) @ [hex_digit (n mod 10)])"

declare str_nat.simps [simp del]

definition str_int :: "int \<Rightarrow> string" where
  "str_int i = (if i < 0 then CHR ''-'' # str_nat (nat (- i)) else str_nat (nat i))"

text \<open>
  \<^verbatim>\<open>repr\<close> of a \<^verbatim>\<open>str\<close>: double quotes when the text has a single quote and no double
  quote, single quotes otherwise; the quote and the backslash are escaped, tab, newline
  and carriage return have their letters, and every other code point that is not
  printable is written \<^verbatim>\<open>\xhh\<close>.
\<close>

definition py_printable :: "char \<Rightarrow> bool" where
  "py_printable c = (let n = (of_char c :: nat) in (32 \<le> n \<and> n < 127) \<or> (161 \<le> n \<and> n \<noteq> 173))"

definition repr_char :: "char \<Rightarrow> char \<Rightarrow> string" where
  "repr_char q c =
     (if c = q \<or> c = CHR 0x5C then [CHR 0x5C, c]
      else if c = CHR 0x09 then [CHR 0x5C, CHR ''t'']
      else if c = CHR 0x0A then [CHR 0x5C, CHR ''n'']
      else if c = CHR 0x0D then [CHR 0x5C, CHR ''r'']
      else if py_printable c then [c]
      else [CHR 0x5C, CHR ''x'', hex_digit (of_char c div 16), hex_digit (of_char c mod 16)])"

definition repr_str :: "string \<Rightarrow> string" where
  "repr_str s =
     (let q = (if CHR 0x27 \<in> set s \<and> CHR 0x22 \<notin> set s then CHR 0x22 else CHR 0x27)
      in q # concat (map (repr_char q) s) @ [q])"

fun py_repr :: "pyval \<Rightarrow> string" where
  "py_repr PNone = ''None''"
| "py_repr (PBool b) = (if b then ''True'' else ''False'')"
| "py_repr (PInt i) = str_int i"
| "py_repr (PStr s) = repr_str s"

fun py_str :: "pyval \<Rightarrow> string" where
  "py_str (PStr s) = s"
| "py_str v = py_repr v"

text \<open>\<^verbatim>\<open>s.lower()\<close> on code points below 256.\<close>

definition py_lower_char :: "char \<Rightarrow> char" where
  "py_lower_char c =
     (let n = (of_char c :: nat)
      in if (65 \<le> n \<and> n \<le> 90) \<or> (192 \<le> n \<and> n \<le> 222 \<and> n \<noteq> 215) then char_of (n + 32) else c)"

definition py_lower :: "string \<Rightarrow> string" where
  "py_lower s = map py_lower_char s"

text \<open>\<^verbatim>\<open>isinstance(v, str) and v.lower() == 'none'\<close>\<close>

fun is_none_str :: "pyval \<Rightarrow> bool" where
  "is_none_str (PStr s) = (py_lower s = ''none'')"
| "is_none_str v = False"

text \<open>
  A dictionary keeps its keys in insertion order; storing under a key that is present
  replaces the value where it stands. \<open>rowdict\<close> is a dictionary with \<^verbatim>\<open>str\<close> keys
  (a row, a record as \<^verbatim>\<open>model_to_dict\<close> gives it), \<open>'v pydict\<close> one keyed by values.
\<close>

type_synonym rowdict = "(string \<times> pyval) list"

type_synonym 'v pydict = "(pyval \<times> 'v) list"

fun rd_set :: "rowdict \<Rightarrow> string \<Rightarrow> pyval \<Rightarrow> rowdict" where
  "rd_set [] k v = [(k, v)]"
| "rd_set ((k', v') # d) k v = (if k' = k then (k', v) # d else (k', v') # rd_set d k v)"

definition rd_dict :: "(string \<times> pyval) list \<Rightarrow> rowdict" where
  "rd_dict kvs = fold (\<lambda>(k, v) d. rd_set d k v) kvs []"

fun pd_get :: "'v pydict \<Rightarrow> pyval \<Rightarrow> 'v option" where
  "pd_get [] k = None"
| "pd_get ((k', v') # d) k = (if py_eq k' k then Some v' else pd_get d k)"

fun pd_set :: "'v pydict \<Rightarrow> pyval \<Rightarrow> 'v \<Rightarrow> 'v pydict" where
  "pd_set [] k v = [(k, v)]"
| "pd_set ((k', v') # d) k v = (if py_eq k' k then (k', v) # d else (k', v') # pd_set d k v)"

definition pd_keys :: "'v pydict \<Rightarrow> pyval set" where
  "pd_keys d = py_key ` fst ` set d"

text \<open>\<^verbatim>\<open>str(d)\<close> of a dictionary with \<^verbatim>\<open>str\<close> keys.\<close>

fun join_items :: "string list \<Rightarrow> string" where
  "join_items [] = []"
| "join_items [x] = x"
| "join_items (x # y # ys) = x @ '', '' @ join_items (y # ys)"

definition str_dict :: "rowdict \<Rightarrow> string" where
  "str_dict d = ''{'' @ join_items (map (\<lambda>(k, v). repr_str k @ '': '' @ py_repr v) d) @ ''}''"

section \<open>The fingerprint\<close>

text \<open>
  \<^verbatim>\<open>sdict = {k:v for k,v in sorted(xdict.items())}\<close>,
  \<^verbatim>\<open>strdict = str(sdict).encode('UTF-8')\<close>, \<^verbatim>\<open>hashlib.md5(strdict).digest()\<close>.
  The items of a dictionary have different keys, so \<^verbatim>\<open>sorted\<close> orders them by key alone
  (code point order). The library's hash of the encoded text is the parameter \<open>md5\<close>.
\<close>

definition sorted_items :: "rowdict \<Rightarrow> (string \<times> pyval) list" where
  "sorted_items d = sort_key fst d"

definition dict_digest :: "(string \<Rightarrow> 'd) \<Rightarrow> rowdict \<Rightarrow> 'd" where
  "dict_digest md5 d = md5 (str_dict (rd_dict (sorted_items d)))"

text \<open>
  The loop over a destination record's dictionary in \<^verbatim>\<open>Store_Destination\<close>:
  \<^verbatim>\<open>if isinstance(xdict[i], str) and xdict[i].lower() == 'none': xdict[i] = None\<close>.
\<close>

definition normalize_none :: "rowdict \<Rightarrow> rowdict" where
  "normalize_none xdict = map (\<lambda>(i, v). (i, if is_none_str v then PNone else v)) xdict"

section \<open>Reading the source\<close>

datatype py_exception = KeyError string | SystemExit int

datatype log_entry = LogDebug string | LogInfo string | LogError string

text \<open>
  What the cursor gives for \<^verbatim>\<open>SELECT * from info_services.fos\<close>: the statement fails
  with a \<^verbatim>\<open>psycopg2.Error\<close> (its \<^verbatim>\<open>pgcode\<close> and \<^verbatim>\<open>pgerror\<close>), or there are the column
  names of \<^verbatim>\<open>cursor.description\<close> and the rows of \<^verbatim>\<open>cursor.fetchall()\<close>.
\<close>

datatype cursor = QueryFailed pyval pyval | QueryRows "string list" "pyval list list"

text \<open>
  The body of the loop over the rows (\<open>read_row\<close>: the key and the record stored
  under it) and the loop. \<^verbatim>\<open>rowdict['field_of_science_id']\<close> and
  \<^verbatim>\<open>DATA[key]['fos_nsf_abbrev']\<close> raise \<^verbatim>\<open>KeyError\<close> when the column is missing;
  \<^verbatim>\<open>DATA[key]\<close> is the very \<^verbatim>\<open>rowdict\<close>, so the assignment of \<^verbatim>\<open>None\<close> changes the
  stored record.
\<close>

definition read_row :: "string list \<Rightarrow> pyval list \<Rightarrow> py_exception + pyval \<times> rowdict" where
  "read_row COLS row =
     (let rowdict = rd_dict (zip COLS row) in
      case map_of rowdict ''field_of_science_id'' of
        None \<Rightarrow> Inl (KeyError ''field_of_science_id'')
      | Some key \<Rightarrow>
          (case map_of rowdict ''fos_nsf_abbrev'' of
             None \<Rightarrow> Inl (KeyError ''fos_nsf_abbrev'')
           | Some na \<Rightarrow>
               Inr (key, if is_none_str na then rd_set rowdict ''fos_nsf_abbrev'' PNone else rowdict)))"

fun retrieve_rows :: "string list \<Rightarrow> pyval list list \<Rightarrow> rowdict pydict \<Rightarrow> py_exception + rowdict pydict" where
  "retrieve_rows COLS [] DATA = Inr DATA"
| "retrieve_rows COLS (row # rows) DATA =
     (case read_row COLS row of
        Inl e \<Rightarrow> Inl e
      | Inr (key, rowdict) \<Rightarrow> retrieve_rows COLS rows (pd_set DATA key rowdict))"

definition Retrieve_Source :: "cursor \<Rightarrow> log_entry list \<Rightarrow> (py_exception + rowdict pydict) \<times> log_entry list" where
  "Retrieve_Source cur lg =
     (case cur of
        QueryFailed pgcode pgerror \<Rightarrow>
          (Inl (SystemExit 1),
           lg @ [LogError (''Failed '' @ [CHR 0x27] @ ''SELECT * from info_services.fos'' @ [CHR 0x27]
                   @ '' with '' @ py_str pgcode @ '': '' @ py_str pgerror)])
      | QueryRows COLS rows \<Rightarrow> (retrieve_rows COLS rows [], lg))"

section \<open>The destination\<close>

text \<open>
  Modelled from the spec: the destination record store (the \<^verbatim>\<open>XSEDEFos\<close> model of
  \<^verbatim>\<open>xdcdb.models\<close> and the object-relational layer behind it) is not part of the
  sources. Following section 6 of the specification it is a table of records identified
  by \<^verbatim>\<open>field_of_science_id\<close>, with the five further fields that \<^verbatim>\<open>Store_Destination\<close>
  writes; it enumerates all records, creates or overwrites the record of an id with the
  values given, deletes the record of an id, and rejects a write with a data error or an
  integrity error. A rejected write changes nothing. Which writes are rejected is for the
  store to say: \<open>upsert_error\<close> and \<open>delete_error\<close> of the \<open>backend\<close>, from the table
  as it stands and the record concerned. The store also keeps the \<open>journal\<close> of the
  writes it was asked for, in order.
\<close>

record XSEDEFos =
  field_of_science_id :: pyval
  parent_field_of_science_id :: pyval
  field_of_science_desc :: pyval
  fos_nsf_id :: pyval
  fos_nsf_abbrev :: pyval
  is_active :: pyval

datatype db_error = DataError string | IntegrityError string

fun type_name :: "db_error \<Rightarrow> string" where
  "type_name (DataError m) = ''DataError''"
| "type_name (IntegrityError m) = ''IntegrityError''"

fun error_str :: "db_error \<Rightarrow> string" where
  "error_str (DataError m) = m"
| "error_str (IntegrityError m) = m"

datatype db_op = UpsertOk pyval | UpsertFailed pyval db_error | DeleteOk pyval | DeleteFailed pyval db_error

record backend =
  upsert_error :: "XSEDEFos list \<Rightarrow> XSEDEFos \<Rightarrow> db_error option"
  delete_error :: "XSEDEFos list \<Rightarrow> XSEDEFos \<Rightarrow> db_error option"

definition model_to_dict :: "XSEDEFos \<Rightarrow> rowdict" where
  "model_to_dict item =
     [(''field_of_science_id'', field_of_science_id item),
      (''parent_field_of_science_id'', parent_field_of_science_id item),
      (''field_of_science_desc'', field_of_science_desc item),
      (''fos_nsf_id'', fos_nsf_id item),
      (''fos_nsf_abbrev'', fos_nsf_abbrev item),
      (''is_active'', is_active item)]"

text \<open>\<^verbatim>\<open>update_or_create\<close>: the record of that id is overwritten where it stands, or a new one is added.\<close>

fun db_upsert :: "XSEDEFos list \<Rightarrow> XSEDEFos \<Rightarrow> XSEDEFos list" where
  "db_upsert [] r = [r]"
| "db_upsert (x # xs) r =
     (if py_eq (field_of_science_id x) (field_of_science_id r) then r # xs else x # db_upsert xs r)"

definition db_delete :: "XSEDEFos list \<Rightarrow> XSEDEFos \<Rightarrow> XSEDEFos list" where
  "db_delete t item = filter (\<lambda>x. \<not> py_eq (field_of_science_id x) (field_of_science_id item)) t"

definition db_find :: "XSEDEFos list \<Rightarrow> pyval \<Rightarrow> XSEDEFos option" where
  "db_find t k = find (\<lambda>x. py_eq (field_of_science_id x) k) t"

definition db_ids :: "XSEDEFos list \<Rightarrow> pyval set" where
  "db_ids t = py_key ` field_of_science_id ` set t"

section \<open>The reconciler\<close>

text \<open>
  The state a run works on: the destination (its table and journal), the log, and the
  three counters of the \<^verbatim>\<open>HandleLoad\<close> object.
\<close>

record state =
  table :: "XSEDEFos list"
  journal :: "db_op list"
  log :: "log_entry list"
  MyUpdateStat :: int
  MyDeleteStat :: int
  MySkipStat :: int

datatype 'a outcome = Returned 'a | Raised py_exception

text \<open>
  The first loop, over \<^verbatim>\<open>XSEDEFos.objects.all()\<close>: \<^verbatim>\<open>self.cur\<close> and \<^verbatim>\<open>self.curdigest\<close>.
  (\<^verbatim>\<open>self.curstring\<close> and \<^verbatim>\<open>self.new\<close> are written and never read.)
\<close>

definition cur_digest :: "(string \<Rightarrow> 'd) \<Rightarrow> XSEDEFos \<Rightarrow> 'd" where
  "cur_digest md5 item = dict_digest md5 (normalize_none (model_to_dict item))"

fun load_cur :: "(string \<Rightarrow> 'd) \<Rightarrow> XSEDEFos list \<Rightarrow> XSEDEFos pydict \<times> 'd pydict \<Rightarrow> XSEDEFos pydict \<times> 'd pydict" where
  "load_cur md5 [] (cur, curdigest) = (cur, curdigest)"
| "load_cur md5 (item # items) (cur, curdigest) =
     load_cur md5 items
       (pd_set cur (field_of_science_id item) item,
        pd_set curdigest (field_of_science_id item) (cur_digest md5 item))"

text \<open>\<^verbatim>\<open>nitem[name]\<close>\<close>

definition subscript :: "rowdict \<Rightarrow> string \<Rightarrow> py_exception + pyval" where
  "subscript nitem name = (case map_of nitem name of None \<Rightarrow> Inl (KeyError name) | Some v \<Rightarrow> Inr v)"

text \<open>
  The arguments of \<^verbatim>\<open>update_or_create\<close>, evaluated in the order they are written:
  the id, then the five \<^verbatim>\<open>defaults\<close>, three of them through \<^verbatim>\<open>str()\<close>.
\<close>

definition upsert_args :: "rowdict \<Rightarrow> py_exception + XSEDEFos" where
  "upsert_args nitem =
     (case subscript nitem ''field_of_science_id'' of Inl e \<Rightarrow> Inl e | Inr fid \<Rightarrow>
      case subscript nitem ''parent_field_of_science_id'' of Inl e \<Rightarrow> Inl e | Inr parent \<Rightarrow>
      case subscript nitem ''field_of_science_desc'' of Inl e \<Rightarrow> Inl e | Inr desc \<Rightarrow>
      case subscript nitem ''fos_nsf_id'' of Inl e \<Rightarrow> Inl e | Inr nsf \<Rightarrow>
      case subscript nitem ''fos_nsf_abbrev'' of Inl e \<Rightarrow> Inl e | Inr abbrev \<Rightarrow>
      case subscript nitem ''is_active'' of Inl e \<Rightarrow> Inl e | Inr active \<Rightarrow>
        Inr \<lparr> field_of_science_id = fid,
              parent_field_of_science_id = parent,
              field_of_science_desc = PStr (py_str desc),
              fos_nsf_id = nsf,
              fos_nsf_abbrev = PStr (py_str abbrev),
              is_active = PStr (py_str active) \<rparr>)"

text \<open>
  The two error lines: \<^verbatim>\<open>'{} saving ID={}: {}'.format(type(e).__name__, id, str(e))\<close> and
  \<^verbatim>\<open>'{} deleting ID={}: {}'.format(type(e).__name__, id, str(e))\<close>.
\<close>

definition save_error_msg :: "pyval \<Rightarrow> db_error \<Rightarrow> string" where
  "save_error_msg fid e = type_name e @ '' saving ID='' @ py_str fid @ '': '' @ error_str e"

definition delete_error_msg :: "pyval \<Rightarrow> db_error \<Rightarrow> string" where
  "delete_error_msg fid e = type_name e @ '' deleting ID='' @ py_str fid @ '': '' @ error_str e"

text \<open>
  The body of the \<^verbatim>\<open>try\<close> when the store accepts the write: the record is in the table,
  the debug line is logged and the counter raised.
\<close>

definition upsert_step :: "XSEDEFos \<Rightarrow> state \<Rightarrow> state" where
  "upsert_step r st =
     st\<lparr>table := db_upsert (table st) r,
        journal := journal st @ [UpsertOk (field_of_science_id r)],
        log := log st @ [LogDebug (''FOS save field_of_science_id='' @ py_str (field_of_science_id r))],
        MyUpdateStat := MyUpdateStat st + 1\<rparr>"

text \<open>
  The second loop, over the keys of \<^verbatim>\<open>new_items\<close>, each with its record
  \<^verbatim>\<open>nitem = new_items[new_id]\<close>. The result \<open>None\<close> is the loop
  running to its end; \<open>Some\<close> is the \<^verbatim>\<open>return(False, msg)\<close> of the handler, or an
  exception that the handler does not catch. \<^verbatim>\<open>self.curdigest.get(new_id, '')\<close> is a
  digest or the empty \<^verbatim>\<open>str\<close>, which no digest equals.
\<close>

fun store_new :: "backend \<Rightarrow> (string \<Rightarrow> 'd) \<Rightarrow> 'd pydict \<Rightarrow> rowdict pydict \<Rightarrow> state \<Rightarrow> (bool \<times> string) outcome option \<times> state" where
  "store_new be md5 curdigest [] st = (None, st)"
| "store_new be md5 curdigest ((new_id, nitem) # rest) st =
     (if Some (dict_digest md5 nitem) = pd_get curdigest new_id
      then store_new be md5 curdigest rest (st\<lparr>MySkipStat := MySkipStat st + 1\<rparr>)
      else
        (case upsert_args nitem of
           Inl e \<Rightarrow> (Some (Raised e), st)
         | Inr r \<Rightarrow>
             (case upsert_error be (table st) r of
                None \<Rightarrow> store_new be md5 curdigest rest (upsert_step r st)
              | Some e \<Rightarrow>
                  (let msg = save_error_msg (field_of_science_id r) e
                   in (Some (Returned (False, msg)),
                       st\<lparr>journal := journal st @ [UpsertFailed (field_of_science_id r) e],
                          log := log st @ [LogError msg]\<rparr>)))))"

text \<open>
  The third loop, over \<^verbatim>\<open>self.cur\<close>. The info line reads the id from the handle after
  \<^verbatim>\<open>delete()\<close>, which has cleared the primary key of the instance, so it prints
  \<^verbatim>\<open>None\<close>; the counter is raised before it. A rejected delete is logged, with the id,
  and the loop goes on.
\<close>

definition delete_step :: "XSEDEFos \<Rightarrow> state \<Rightarrow> state" where
  "delete_step item st =
     st\<lparr>table := db_delete (table st) item,
        journal := journal st @ [DeleteOk (field_of_science_id item)],
        MyDeleteStat := MyDeleteStat st + 1,
        log := log st @ [LogInfo (''FOS'' @ '' delete field_of_science_id='' @ py_str PNone)]\<rparr>"

definition delete_reject_step :: "XSEDEFos \<Rightarrow> db_error \<Rightarrow> state \<Rightarrow> state" where
  "delete_reject_step item e st =
     st\<lparr>journal := journal st @ [DeleteFailed (field_of_science_id item) e],
        log := log st @ [LogError (delete_error_msg (field_of_science_id item) e)]\<rparr>"

fun delete_old :: "backend \<Rightarrow> rowdict pydict \<Rightarrow> XSEDEFos pydict \<Rightarrow> state \<Rightarrow> state" where
  "delete_old be new_items [] st = st"
| "delete_old be new_items ((cur_id, item) # rest) st =
     (if pd_get new_items cur_id \<noteq> None then delete_old be new_items rest st
      else
        (case delete_error be (table st) item of
           None \<Rightarrow> delete_old be new_items rest (delete_step item st)
         | Some e \<Rightarrow> delete_old be new_items rest (delete_reject_step item e st)))"

definition Store_Destination :: "backend \<Rightarrow> (string \<Rightarrow> 'd) \<Rightarrow> rowdict pydict \<Rightarrow> state \<Rightarrow> (bool \<times> string) outcome \<times> state" where
  "Store_Destination be md5 new_items st =
     (case load_cur md5 (table st) ([], []) of (cur, curdigest) \<Rightarrow>
        (case store_new be md5 curdigest new_items st of
           (Some r, st') \<Rightarrow> (r, st')
         | (None, st') \<Rightarrow> (Returned (True, []), delete_old be new_items cur st')))"

section \<open>Notions used in the statements\<close>

text \<open>A row whose record is stored under a key equal to \<open>key\<close>.\<close>

definition same_id :: "string list \<Rightarrow> pyval \<Rightarrow> pyval list \<Rightarrow> bool" where
  "same_id COLS key row = (case read_row COLS row of Inl e \<Rightarrow> False | Inr (k, r) \<Rightarrow> py_eq k key)"

text \<open>What a run added to the journal of the destination and to the log.\<close>

definition new_ops :: "state \<Rightarrow> state \<Rightarrow> db_op list" where
  "new_ops st st' = drop (length (journal st)) (journal st')"

definition new_log :: "state \<Rightarrow> state \<Rightarrow> log_entry list" where
  "new_log st st' = drop (length (log st)) (log st')"

text \<open>
  A dictionary has no two equal keys. A snapshot as \<^verbatim>\<open>Retrieve_Source\<close> builds it is such
  a dictionary of such dictionaries, each stored under its own \<^verbatim>\<open>field_of_science_id\<close>.
  The destination has one record for an id.
\<close>

definition pd_distinct :: "'v pydict \<Rightarrow> bool" where
  "pd_distinct d = distinct (map (py_key \<circ> fst) d)"

definition snapshot_wf :: "rowdict pydict \<Rightarrow> bool" where
  "snapshot_wf new_items =
     (pd_distinct new_items \<and>
      (\<forall>(k, nitem)\<in>set new_items. distinct (map fst nitem) \<and>
         (case map_of nitem ''field_of_science_id'' of None \<Rightarrow> False | Some v \<Rightarrow> py_eq v k)))"

definition pk_unique :: "XSEDEFos list \<Rightarrow> bool" where
  "pk_unique t = distinct (map (py_key \<circ> field_of_science_id) t)"

text \<open>What the normalization does to one value.\<close>

definition none_to_null :: "pyval \<Rightarrow> pyval" where
  "none_to_null v = (if is_none_str v then PNone else v)"

text \<open>
  The fields of a row as \<^verbatim>\<open>Retrieve_Source\<close> passes them on, and the fields of a
  destination record as the first loop of \<^verbatim>\<open>Store_Destination\<close> hashes them.
\<close>

definition source_view :: "rowdict \<Rightarrow> string \<Rightarrow> pyval option" where
  "source_view d f = (if f = ''fos_nsf_abbrev'' then map_option none_to_null (map_of d f) else map_of d f)"

definition dest_view :: "rowdict \<Rightarrow> string \<Rightarrow> pyval option" where
  "dest_view d f = map_option none_to_null (map_of d f)"

text \<open>
  The destination holds the id of a source item with an equal fingerprint.
\<close>

definition already_stored :: "(string \<Rightarrow> 'd) \<Rightarrow> XSEDEFos list \<Rightarrow> pyval \<times> rowdict \<Rightarrow> bool" where
  "already_stored md5 t = (\<lambda>(k, nitem).
     case db_find t k of None \<Rightarrow> False | Some r \<Rightarrow> cur_digest md5 r = dict_digest md5 nitem)"

text \<open>
  A source record that reads back as it was written: it has the six fields of the
  destination and no others, no value is a text equal to \<^verbatim>\<open>none\<close> in any case, and the
  three values that go through \<^verbatim>\<open>str()\<close> are texts or \<^verbatim>\<open>None\<close>.
\<close>

definition fos_fields :: "string list" where
  "fos_fields = [''field_of_science_id'', ''parent_field_of_science_id'', ''field_of_science_desc'',
                 ''fos_nsf_id'', ''fos_nsf_abbrev'', ''is_active'']"

fun str_or_none :: "pyval \<Rightarrow> bool" where
  "str_or_none PNone = True"
| "str_or_none (PStr s) = True"
| "str_or_none v = False"

definition str_faithful :: "rowdict \<Rightarrow> bool" where
  "str_faithful nitem =
     (distinct (map fst nitem) \<and> set (map fst nitem) = set fos_fields \<and>
      (\<forall>(f, v)\<in>set nitem. \<not> is_none_str v \<and>
         (f \<in> {''field_of_science_desc'', ''fos_nsf_abbrev'', ''is_active''} \<longrightarrow> str_or_none v)))"

text \<open>The id under which an item is upserted, \<^verbatim>\<open>nitem['field_of_science_id']\<close>.\<close>

definition upsert_id :: "rowdict \<Rightarrow> pyval" where
  "upsert_id nitem = (case map_of nitem ''field_of_science_id'' of None \<Rightarrow> PNone | Some v \<Rightarrow> v)"

fun delete_failed :: "db_op \<Rightarrow> bool" where
  "delete_failed (DeleteFailed k e) = True"
| "delete_failed op = False"

fun is_upsert_ok :: "db_op \<Rightarrow> bool" where
  "is_upsert_ok (UpsertOk k) = True"
| "is_upsert_ok op = False"

text \<open>The operation is a delete, done or rejected, of the record with an id equal to \<open>k\<close>.\<close>

fun deletes_id :: "pyval \<Rightarrow> db_op \<Rightarrow> bool" where
  "deletes_id k (DeleteOk k') = py_eq k' k"
| "deletes_id k (DeleteFailed k' e) = py_eq k' k"
| "deletes_id k op = False"

text \<open>The operation is an accepted upsert of the record with an id equal to \<open>k\<close>.\<close>

fun upserts_id :: "pyval \<Rightarrow> db_op \<Rightarrow> bool" where
  "upserts_id k (UpsertOk k') = py_eq k' k"
| "upserts_id k op = False"

fun is_delete :: "db_op \<Rightarrow> bool" where
  "is_delete (DeleteOk k) = True"
| "is_delete (DeleteFailed k e) = True"
| "is_delete op = False"

text \<open>The counters as \<^verbatim>\<open>run\<close> sets them before a pass.\<close>

definition reset_stats :: "state \<Rightarrow> state" where
  "reset_stats st = st\<lparr>MyUpdateStat := 0, MyDeleteStat := 0, MySkipStat := 0\<rparr>"

section \<open>Sample data\<close>

text \<open>
  A source record and a destination record with the six fields, a destination that
  accepts every write, one that rejects the upsert of one id, one that rejects every
  delete, and the state of a run that starts on a given table.
\<close>

definition source_record :: "int \<Rightarrow> string \<Rightarrow> rowdict" where
  "source_record i d =
     [(''field_of_science_id'', PInt i), (''parent_field_of_science_id'', PNone),
      (''field_of_science_desc'', PStr d), (''fos_nsf_id'', PInt (100 + i)),
      (''fos_nsf_abbrev'', PNone), (''is_active'', PStr ''1'')]"

definition stored_record :: "int \<Rightarrow> string \<Rightarrow> XSEDEFos" where
  "stored_record i d =
     \<lparr> field_of_science_id = PInt i, parent_field_of_science_id = PNone,
       field_of_science_desc = PStr d, fos_nsf_id = PInt (100 + i),
       fos_nsf_abbrev = PStr ''None'', is_active = PStr ''1'' \<rparr>"

definition accept_all :: backend where
  "accept_all = \<lparr> upsert_error = (\<lambda>t r. None), delete_error = (\<lambda>t r. None) \<rparr>"

definition reject_upsert :: "pyval \<Rightarrow> backend" where
  "reject_upsert k =
     \<lparr> upsert_error = (\<lambda>t r. if field_of_science_id r = k then Some (DataError ''value too long'') else None),
       delete_error = (\<lambda>t r. None) \<rparr>"

definition reject_deletes :: backend where
  "reject_deletes =
     \<lparr> upsert_error = (\<lambda>t r. None),
       delete_error = (\<lambda>t r. Some (IntegrityError ''still referenced'')) \<rparr>"

definition start_state :: "XSEDEFos list \<Rightarrow> state" where
  "start_state t = \<lparr> table = t, journal = [], log = [], MyUpdateStat = 0, MyDeleteStat = 0, MySkipStat = 0 \<rparr>"

section \<open>The fingerprint is independent of the order of the fields\<close>

lemma rd_set_fresh: "k \<notin> fst ` set d \<Longrightarrow> rd_set d k v = d @ [(k, v)]"
  by (induction d) auto

lemma fold_rd_set_distinct:
  "distinct (map fst (acc @ kvs)) \<Longrightarrow> fold (\<lambda>(k, v) d. rd_set d k v) kvs acc = acc @ kvs"
proof (induction kvs arbitrary: acc)
  case Nil
  then show ?case by simp
next
  case (Cons kv kvs)
  obtain k v where kv: "kv = (k, v)" by (cases kv)
  from Cons.prems have fresh: "k \<notin> fst ` set acc" by (auto simp: kv)
  from Cons.prems have "distinct (map fst ((acc @ [(k, v)]) @ kvs))" by (simp add: kv)
  from Cons.IH [OF this] show ?case by (simp add: kv rd_set_fresh [OF fresh])
qed

lemma rd_dict_distinct: "distinct (map fst kvs) \<Longrightarrow> rd_dict kvs = kvs"
  using fold_rd_set_distinct [of "[]" kvs] by (simp add: rd_dict_def)

lemma distinct_fst_sorted_items: "distinct (map fst d) \<Longrightarrow> distinct (map fst (sorted_items d))"
  by (simp add: sorted_items_def distinct_map)

lemma sorted_fst_sorted_items: "sorted (map fst (sorted_items d))"
  by (simp add: sorted_items_def)

lemma sorted_items_unique:
  assumes "distinct (map fst r1)" and "distinct (map fst r2)" and "map_of r1 = map_of r2"
  shows "sorted_items r1 = sorted_items r2"
proof -
  have eq: "set r1 = set r2"
    using assms by (simp add: map_of_inject_set)
  have inj: "inj_on fst (set (sorted_items r1) \<union> set (sorted_items r2))"
    using assms(1) eq by (simp add: sorted_items_def distinct_map)
  show ?thesis
    by (rule map_sorted_distinct_set_unique [OF inj])
       (simp_all add: sorted_fst_sorted_items distinct_fst_sorted_items assms eq, simp add: sorted_items_def eq)
qed

lemma dict_digest_sorted: "distinct (map fst d) \<Longrightarrow> dict_digest md5 d = md5 (str_dict (sorted_items d))"
  by (simp add: dict_digest_def rd_dict_distinct distinct_fst_sorted_items)

text \<open>
  C5. The fingerprint does not depend on the order in which a record presents its
  fields: two dictionaries that are the same mapping from field names to values have the
  same digest. The digest is the hash of the text of the items sorted by field name.
\<close>

theorem fingerprint_order_independent:
  assumes "distinct (map fst r1)" and "distinct (map fst r2)" and "map_of r1 = map_of r2"
  shows "dict_digest md5 r1 = dict_digest md5 r2
       \<and> dict_digest md5 r1 = md5 (str_dict (sorted_items r1))
       \<and> sorted (map fst (sorted_items r1))
       \<and> map_of (sorted_items r1) = map_of r1"
  using assms sorted_items_unique [OF assms]
  by (simp add: dict_digest_sorted sorted_fst_sorted_items sorted_items_def map_of_inject_set distinct_map)

theorem fingerprint_order_independent_witness:
  "dict_digest id [(''is_active'', PStr ''1''), (''desc'', PStr ''Physics'')]
     = dict_digest id [(''desc'', PStr ''Physics''), (''is_active'', PStr ''1'')]
   \<and> sorted_items [(''is_active'', PStr ''1''), (''desc'', PStr ''Physics'')]
     = [(''desc'', PStr ''Physics''), (''is_active'', PStr ''1'')]"
proof -
  have m: "map_of [(''is_active'', PStr ''1''), (''desc'', PStr ''Physics'')]
         = map_of [(''desc'', PStr ''Physics''), (''is_active'', PStr ''1'')]"
    by (rule ext) simp
  have s: "sorted_items [(''is_active'', PStr ''1''), (''desc'', PStr ''Physics'')]
     = [(''desc'', PStr ''Physics''), (''is_active'', PStr ''1'')]"
    by (simp add: sorted_items_def)
  show ?thesis
    using fingerprint_order_independent [OF _ _ m, of id] s by simp
qed

section \<open>The source snapshot\<close>

lemma py_eq_refl [simp]: "py_eq k k"
  by (simp add: py_eq_def)

lemma py_eq_sym: "py_eq a b = py_eq b a"
  by (auto simp: py_eq_def)

lemma pd_keys_Nil [simp]: "pd_keys [] = {}"
  by (simp add: pd_keys_def)

lemma pd_keys_Cons [simp]: "pd_keys ((k, v) # d) = insert (py_key k) (pd_keys d)"
  by (simp add: pd_keys_def)

lemma pd_distinct_Nil [simp]: "pd_distinct []"
  by (simp add: pd_distinct_def)

lemma pd_distinct_Cons [simp]: "pd_distinct ((k, v) # d) = (py_key k \<notin> pd_keys d \<and> pd_distinct d)"
  by (simp add: pd_distinct_def pd_keys_def image_image)

lemma pd_get_pd_set: "pd_get (pd_set d k v) k' = (if py_eq k k' then Some v else pd_get d k')"
  by (induction d) (auto simp: py_eq_def)

lemma pd_keys_pd_set: "pd_keys (pd_set d k v) = insert (py_key k) (pd_keys d)"
  by (induction d) (auto simp: py_eq_def split: if_splits)

lemma pd_distinct_pd_set: "pd_distinct d \<Longrightarrow> pd_distinct (pd_set d k v)"
  by (induction d) (auto simp: py_eq_def pd_keys_pd_set split: if_splits)

lemma pd_get_None_iff: "pd_get d k = None \<longleftrightarrow> py_key k \<notin> pd_keys d"
  by (induction d) (auto simp: py_eq_def split: if_splits)

lemma pd_distinct_length: "pd_distinct d \<Longrightarrow> length d = card (pd_keys d)"
  unfolding pd_distinct_def pd_keys_def
  using distinct_card [of "map (py_key \<circ> fst) d"] by (simp add: image_image)

lemma retrieve_rows_get:
  "retrieve_rows COLS rows acc = Inr DATA \<Longrightarrow>
   pd_get DATA k =
     (if \<exists>row\<in>set rows. same_id COLS k row
      then (case read_row COLS (last (filter (same_id COLS k) rows)) of Inl e \<Rightarrow> None | Inr (k', r) \<Rightarrow> Some r)
      else pd_get acc k)"
proof (induction rows arbitrary: acc)
  case Nil
  then show ?case by simp
next
  case (Cons row rows)
  from Cons.prems obtain key r where rr: "read_row COLS row = Inr (key, r)"
    and rest: "retrieve_rows COLS rows (pd_set acc key r) = Inr DATA"
    by (auto split: sum.splits)
  have sid: "same_id COLS k row = py_eq key k"
    by (simp add: same_id_def rr)
  show ?case
  proof (cases "\<exists>row\<in>set rows. same_id COLS k row")
    case True
    then have ne: "filter (same_id COLS k) rows \<noteq> []"
      by (simp add: filter_empty_conv)
    from True Cons.IH [OF rest] ne show ?thesis by simp
  next
    case False
    then have emp: "filter (same_id COLS k) rows = []"
      by (simp add: filter_empty_conv)
    from False Cons.IH [OF rest] show ?thesis
      by (simp add: emp sid pd_get_pd_set rr)
  qed
qed

lemma retrieve_rows_keys:
  "retrieve_rows COLS rows acc = Inr DATA \<Longrightarrow>
   pd_keys DATA = pd_keys acc \<union> {py_key key | key row r. row \<in> set rows \<and> read_row COLS row = Inr (key, r)}"
proof (induction rows arbitrary: acc)
  case Nil
  then show ?case by simp
next
  case (Cons row rows)
  from Cons.prems obtain key r where rr: "read_row COLS row = Inr (key, r)"
    and rest: "retrieve_rows COLS rows (pd_set acc key r) = Inr DATA"
    by (auto split: sum.splits)
  from Cons.IH [OF rest] rr show ?case
    by (auto simp: pd_keys_pd_set)
qed

lemma retrieve_rows_distinct:
  "retrieve_rows COLS rows acc = Inr DATA \<Longrightarrow> pd_distinct acc \<Longrightarrow> pd_distinct DATA"
  by (induction rows arbitrary: acc) (auto split: sum.splits intro: pd_distinct_pd_set)

lemma retrieve_rows_read:
  "retrieve_rows COLS rows acc = Inr DATA \<Longrightarrow> row \<in> set rows \<Longrightarrow> \<exists>key r. read_row COLS row = Inr (key, r)"
  by (induction rows arbitrary: acc) (auto split: sum.splits)

text \<open>
  C10. The snapshot is keyed by the \<^verbatim>\<open>field_of_science_id\<close> column: when the rows are
  read without error, every row's id is a key of the result, the record under it is the
  one read from the last row with that id, the keys are the ids of the rows, and the size
  of the result is the number of different ids.
\<close>

theorem retrieve_source_last_row_wins:
  assumes "Retrieve_Source (QueryRows COLS rows) lg = (Inr DATA, lg')"
  shows "(\<forall>row\<in>set rows. \<exists>key r r'.
            read_row COLS row = Inr (key, r) \<and>
            read_row COLS (last (filter (same_id COLS key) rows)) = Inr r' \<and>
            pd_get DATA key = Some (snd r'))
       \<and> pd_keys DATA = {py_key key | key row r. row \<in> set rows \<and> read_row COLS row = Inr (key, r)}
       \<and> length DATA = card (pd_keys DATA)"
proof -
  from assms have rr: "retrieve_rows COLS rows [] = Inr DATA"
    by (simp add: Retrieve_Source_def)
  have d: "pd_distinct DATA"
    using retrieve_rows_distinct [OF rr] by simp
  have 1: "\<exists>key r r'. read_row COLS row = Inr (key, r) \<and>
            read_row COLS (last (filter (same_id COLS key) rows)) = Inr r' \<and>
            pd_get DATA key = Some (snd r')" if row: "row \<in> set rows" for row
  proof -
    from retrieve_rows_read [OF rr row] obtain key r where r: "read_row COLS row = Inr (key, r)"
      by blast
    have sid: "same_id COLS key row" by (simp add: same_id_def r)
    let ?l = "last (filter (same_id COLS key) rows)"
    have "?l \<in> set (filter (same_id COLS key) rows)"
      using row sid by (intro last_in_set) (auto simp: filter_empty_conv)
    then have "?l \<in> set rows" by simp
    from retrieve_rows_read [OF rr this] obtain k' r' where l: "read_row COLS ?l = Inr (k', r')"
      by blast
    from retrieve_rows_get [OF rr, of key] row sid have "pd_get DATA key = Some r'"
      by (auto simp: l)
    with r l show ?thesis by auto
  qed
  from 1 retrieve_rows_keys [OF rr] pd_distinct_length [OF d] show ?thesis
    by simp
qed

theorem retrieve_source_last_row_wins_witness:
  "Retrieve_Source (QueryRows [''field_of_science_id'', ''field_of_science_desc'', ''fos_nsf_abbrev'']
      [[PInt 7, PStr ''Physics'', PStr ''PHY''], [PInt 8, PStr ''Chemistry'', PNone], [PInt 7, PStr ''Physik'', PStr ''NONE'']]) []
    = (Inr [(PInt 7, [(''field_of_science_id'', PInt 7), (''field_of_science_desc'', PStr ''Physik''), (''fos_nsf_abbrev'', PNone)]),
            (PInt 8, [(''field_of_science_id'', PInt 8), (''field_of_science_desc'', PStr ''Chemistry''), (''fos_nsf_abbrev'', PNone)])], [])
   \<and> card (pd_keys [(PInt 7, [(''field_of_science_id'', PInt 7), (''field_of_science_desc'', PStr ''Physik''), (''fos_nsf_abbrev'', PNone)]),
            (PInt 8, [(''field_of_science_id'', PInt 8), (''field_of_science_desc'', PStr ''Chemistry''), (''fos_nsf_abbrev'', PNone)])]) = 2"
proof -
  have e: "Retrieve_Source (QueryRows [''field_of_science_id'', ''field_of_science_desc'', ''fos_nsf_abbrev'']
      [[PInt 7, PStr ''Physics'', PStr ''PHY''], [PInt 8, PStr ''Chemistry'', PNone], [PInt 7, PStr ''Physik'', PStr ''NONE'']]) []
    = (Inr [(PInt 7, [(''field_of_science_id'', PInt 7), (''field_of_science_desc'', PStr ''Physik''), (''fos_nsf_abbrev'', PNone)]),
            (PInt 8, [(''field_of_science_id'', PInt 8), (''field_of_science_desc'', PStr ''Chemistry''), (''fos_nsf_abbrev'', PNone)])], [])"
    by code_simp
  from retrieve_source_last_row_wins [OF e, THEN conjunct2, THEN conjunct2] e show ?thesis
    by simp
qed

section \<open>The destination table and the loaded state\<close>

lemma db_find_Nil [simp]: "db_find [] k = None"
  by (simp add: db_find_def)

lemma db_find_Cons [simp]:
  "db_find (x # t) k = (if py_eq (field_of_science_id x) k then Some x else db_find t k)"
  by (simp add: db_find_def)

lemma db_ids_Nil [simp]: "db_ids [] = {}"
  by (simp add: db_ids_def)

lemma db_ids_Cons [simp]: "db_ids (x # t) = insert (py_key (field_of_science_id x)) (db_ids t)"
  by (simp add: db_ids_def)

lemma pk_unique_Nil [simp]: "pk_unique []"
  by (simp add: pk_unique_def)

lemma pk_unique_Cons [simp]:
  "pk_unique (x # t) = (py_key (field_of_science_id x) \<notin> db_ids t \<and> pk_unique t)"
  by (simp add: pk_unique_def db_ids_def image_image)

lemma db_find_None_iff: "db_find t k = None \<longleftrightarrow> py_key k \<notin> db_ids t"
  by (induction t) (auto simp: py_eq_def)

lemma db_find_Some: "db_find t k = Some r \<Longrightarrow> r \<in> set t \<and> py_eq (field_of_science_id r) k"
  by (induction t) (auto split: if_splits)

lemma db_find_upsert:
  "db_find (db_upsert t r) k = (if py_eq (field_of_science_id r) k then Some r else db_find t k)"
  by (induction t) (auto simp: py_eq_def)

lemma db_ids_upsert: "db_ids (db_upsert t r) = insert (py_key (field_of_science_id r)) (db_ids t)"
  by (induction t) (auto simp: py_eq_def split: if_splits)

lemma pk_unique_upsert: "pk_unique t \<Longrightarrow> pk_unique (db_upsert t r)"
  by (induction t) (auto simp: py_eq_def db_ids_upsert split: if_splits)

lemma db_upsert_keeps:
  "x \<in> set t \<Longrightarrow> \<not> py_eq (field_of_science_id x) (field_of_science_id r) \<Longrightarrow> x \<in> set (db_upsert t r)"
  by (induction t) auto

lemma db_find_delete:
  "db_find (db_delete t item) k = (if py_eq (field_of_science_id item) k then None else db_find t k)"
  by (induction t) (auto simp: db_delete_def py_eq_def)

lemma db_ids_delete: "db_ids (db_delete t item) = db_ids t - {py_key (field_of_science_id item)}"
  by (induction t) (auto simp: db_delete_def py_eq_def)

lemma pk_unique_delete: "pk_unique t \<Longrightarrow> pk_unique (db_delete t item)"
  using db_ids_delete [of _ item] by (induction t) (auto simp: db_delete_def)

lemma pk_unique_length: "pk_unique t \<Longrightarrow> length t = card (db_ids t)"
  unfolding pk_unique_def db_ids_def
  using distinct_card [of "map (py_key \<circ> field_of_science_id) t"] by (simp add: image_image)

lemma load_cur_digest:
  "pk_unique t \<Longrightarrow>
   pd_get (snd (load_cur md5 t (c, cd))) k =
     (case db_find t k of Some r \<Rightarrow> Some (cur_digest md5 r) | None \<Rightarrow> pd_get cd k)"
proof (induction t arbitrary: c cd)
  case Nil
  then show ?case by simp
next
  case (Cons x t)
  from Cons.prems have u: "pk_unique t" and fresh: "py_key (field_of_science_id x) \<notin> db_ids t"
    by simp_all
  show ?case
  proof (cases "py_eq (field_of_science_id x) k")
    case True
    with fresh have "db_find t k = None"
      by (simp add: db_find_None_iff py_eq_def)
    with True Cons.IH [OF u] show ?thesis
      by (simp add: pd_get_pd_set)
  next
    case False
    with Cons.IH [OF u] show ?thesis
      by (simp add: pd_get_pd_set split: option.splits)
  qed
qed

lemma load_cur_cur:
  "pk_unique t \<Longrightarrow> pd_keys c \<inter> db_ids t = {} \<Longrightarrow>
   fst (load_cur md5 t (c, cd)) = c @ map (\<lambda>x. (field_of_science_id x, x)) t"
proof (induction t arbitrary: c cd)
  case Nil
  then show ?case by simp
next
  case (Cons x t)
  have fresh: "pd_set c (field_of_science_id x) x = c @ [(field_of_science_id x, x)]"
    using Cons.prems(2) by (induction c) (auto simp: py_eq_def)
  from Cons.prems have "pd_keys (c @ [(field_of_science_id x, x)]) \<inter> db_ids t = {}"
    by (auto simp: pd_keys_def)
  with Cons.IH [of "c @ [(field_of_science_id x, x)]"] Cons.prems(1) show ?case
    by (simp add: fresh)
qed

lemma load_cur_keys:
  "pd_keys (fst (load_cur md5 t (c, cd))) = pd_keys c \<union> db_ids t"
  by (induction t arbitrary: c cd) (auto simp: pd_keys_pd_set)

lemma pd_set_entries:
  "(\<forall>(k, item)\<in>set c. py_eq (f item) k) \<Longrightarrow> py_eq (f x) k' \<Longrightarrow>
   (\<forall>(k, item)\<in>set (pd_set c k' x). py_eq (f item) k)"
  by (induction c) (auto simp: py_eq_def split: if_splits)

lemma load_cur_entries:
  "(\<forall>(k, item)\<in>set c. py_eq (field_of_science_id item) k) \<Longrightarrow>
   (\<forall>(k, item)\<in>set (fst (load_cur md5 t (c, cd))). py_eq (field_of_science_id item) k)"
proof (induction t arbitrary: c cd)
  case Nil
  then show ?case by simp
next
  case (Cons x t)
  have "\<forall>(k, item)\<in>set (pd_set c (field_of_science_id x) x). py_eq (field_of_science_id item) k"
    by (rule pd_set_entries [OF Cons.prems]) simp
  from Cons.IH [OF this] show ?case by simp
qed

section \<open>The loop over the source items\<close>

lemma store_new_Cons_cases:
  assumes "store_new be md5 cd ((k0, n0) # items) st = (res, st')"
  obtains
    (skip) "Some (dict_digest md5 n0) = pd_get cd k0"
      and "store_new be md5 cd items (st\<lparr>MySkipStat := MySkipStat st + 1\<rparr>) = (res, st')"
  | (keyerror) x where "Some (dict_digest md5 n0) \<noteq> pd_get cd k0" and "upsert_args n0 = Inl x"
      and "res = Some (Raised x)" and "st' = st"
  | (written) r where "Some (dict_digest md5 n0) \<noteq> pd_get cd k0" and "upsert_args n0 = Inr r"
      and "upsert_error be (table st) r = None"
      and "store_new be md5 cd items (upsert_step r st) = (res, st')"
  | (rejected) r e where "Some (dict_digest md5 n0) \<noteq> pd_get cd k0" and "upsert_args n0 = Inr r"
      and "upsert_error be (table st) r = Some e"
      and "res = Some (Returned (False, save_error_msg (field_of_science_id r) e))"
      and "st' = st\<lparr>journal := journal st @ [UpsertFailed (field_of_science_id r) e],
                     log := log st @ [LogError (save_error_msg (field_of_science_id r) e)]\<rparr>"
  using assms
  by (auto simp: upsert_step_def Let_def split: if_splits sum.splits option.splits)

lemma store_new_shape:
  "store_new be md5 cd items st = (res, st') \<Longrightarrow>
   \<exists>oks dbg. (\<forall>op\<in>set oks. is_upsert_ok op) \<and>
     ((\<forall>b msg. res \<noteq> Some (Returned (b, msg))) \<longrightarrow>
        journal st' = journal st @ oks \<and> log st' = log st @ dbg) \<and>
     (\<forall>b msg. res = Some (Returned (b, msg)) \<longrightarrow>
        \<not> b \<and> (\<exists>k e. msg = save_error_msg k e \<and> journal st' = journal st @ oks @ [UpsertFailed k e]
                      \<and> log st' = log st @ dbg @ [LogError msg]))"
proof (induction items arbitrary: st)
  case Nil
  then show ?case by auto
next
  case (Cons a items)
  obtain k0 n0 where a: "a = (k0, n0)" by (cases a)
  from Cons.prems [unfolded a] show ?case
  proof (cases rule: store_new_Cons_cases)
    case skip
    from Cons.IH [OF skip(2)] show ?thesis by simp
  next
    case (keyerror x)
    then show ?thesis by auto
  next
    case (written r)
    from Cons.IH [OF written(4)] obtain oks dbg where oks: "\<forall>op\<in>set oks. is_upsert_ok op"
      and c1: "(\<forall>b msg. res \<noteq> Some (Returned (b, msg))) \<longrightarrow>
        journal st' = journal (upsert_step r st) @ oks \<and> log st' = log (upsert_step r st) @ dbg"
      and c2: "\<forall>b msg. res = Some (Returned (b, msg)) \<longrightarrow>
        \<not> b \<and> (\<exists>k e. msg = save_error_msg k e \<and> journal st' = journal (upsert_step r st) @ oks @ [UpsertFailed k e]
                      \<and> log st' = log (upsert_step r st) @ dbg @ [LogError msg])"
      by blast
    let ?oks = "UpsertOk (field_of_science_id r) # oks"
    let ?dbg = "LogDebug (''FOS save field_of_science_id='' @ py_str (field_of_science_id r)) # dbg"
    have "\<forall>op\<in>set ?oks. is_upsert_ok op" using oks by simp
    moreover have "(\<forall>b msg. res \<noteq> Some (Returned (b, msg))) \<longrightarrow>
        journal st' = journal st @ ?oks \<and> log st' = log st @ ?dbg"
      using c1 by (auto simp: upsert_step_def)
    moreover have "\<forall>b msg. res = Some (Returned (b, msg)) \<longrightarrow>
        \<not> b \<and> (\<exists>k e. msg = save_error_msg k e \<and> journal st' = journal st @ ?oks @ [UpsertFailed k e]
                      \<and> log st' = log st @ ?dbg @ [LogError msg])"
      using c2 by (auto simp: upsert_step_def)
    ultimately show ?thesis by blast
  next
    case (rejected r e)
    have "\<forall>op\<in>set ([]::db_op list). is_upsert_ok op" by simp
    moreover have "(\<forall>b msg. res \<noteq> Some (Returned (b, msg))) \<longrightarrow>
        journal st' = journal st @ [] \<and> log st' = log st @ []"
      using rejected by auto
    moreover have "\<forall>b msg. res = Some (Returned (b, msg)) \<longrightarrow>
        \<not> b \<and> (\<exists>k e. msg = save_error_msg k e \<and> journal st' = journal st @ [] @ [UpsertFailed k e]
                      \<and> log st' = log st @ [] @ [LogError msg])"
      using rejected by auto
    ultimately show ?thesis by blast
  qed
qed

lemma store_new_ids_mono:
  "store_new be md5 cd items st = (res, st') \<Longrightarrow> db_ids (table st) \<subseteq> db_ids (table st')"
proof (induction items arbitrary: st)
  case Nil
  then show ?case by auto
next
  case (Cons a items)
  obtain k0 n0 where a: "a = (k0, n0)" by (cases a)
  from Cons.prems [unfolded a] show ?case
  proof (cases rule: store_new_Cons_cases)
    case skip
    from Cons.IH [OF skip(2)] show ?thesis by simp
  next
    case (keyerror x)
    then show ?thesis by simp
  next
    case (written r)
    from Cons.IH [OF written(4)] show ?thesis
      by (auto simp: upsert_step_def db_ids_upsert)
  next
    case (rejected r e)
    then show ?thesis by simp
  qed
qed

lemma store_new_keeps:
  "store_new be md5 cd items st = (res, st') \<Longrightarrow> x \<in> set (table st) \<Longrightarrow>
   (\<forall>(k, nitem)\<in>set items. \<forall>r. upsert_args nitem = Inr r \<longrightarrow> \<not> py_eq (field_of_science_id x) (field_of_science_id r)) \<Longrightarrow>
   x \<in> set (table st')"
proof (induction items arbitrary: st)
  case Nil
  then show ?case by auto
next
  case (Cons a items)
  obtain k0 n0 where a: "a = (k0, n0)" by (cases a)
  from Cons.prems(3) have rest: "\<forall>(k, nitem)\<in>set items. \<forall>r. upsert_args nitem = Inr r \<longrightarrow> \<not> py_eq (field_of_science_id x) (field_of_science_id r)"
    by simp
  from Cons.prems(1) [unfolded a] show ?case
  proof (cases rule: store_new_Cons_cases)
    case skip
    from Cons.IH [OF skip(2) _ rest] Cons.prems(2) show ?thesis by simp
  next
    case (keyerror x)
    with Cons.prems(2) show ?thesis by simp
  next
    case (written r)
    from Cons.prems(3) written(2) have "\<not> py_eq (field_of_science_id x) (field_of_science_id r)"
      by (simp add: a)
    with Cons.prems(2) have "x \<in> set (table (upsert_step r st))"
      by (simp add: upsert_step_def db_upsert_keeps)
    from Cons.IH [OF written(4) this rest] show ?thesis .
  next
    case (rejected r e)
    with Cons.prems(2) show ?thesis by simp
  qed
qed

section \<open>Failures of single writes\<close>

lemma delete_old_Cons_cases:
  obtains
    (kept) "pd_get ni k \<noteq> None"
      and "delete_old be ni ((k, item) # rest) st = delete_old be ni rest st"
  | (deleted) "pd_get ni k = None" and "delete_error be (table st) item = None"
      and "delete_old be ni ((k, item) # rest) st = delete_old be ni rest (delete_step item st)"
  | (rejected) e where "pd_get ni k = None" and "delete_error be (table st) item = Some e"
      and "delete_old be ni ((k, item) # rest) st = delete_old be ni rest (delete_reject_step item e st)"
  by (cases "pd_get ni k"; cases "delete_error be (table st) item") auto

lemma delete_old_shape:
  "\<exists>ops lg. journal (delete_old be ni cur st) = journal st @ ops \<and>
     log (delete_old be ni cur st) = log st @ lg \<and>
     (\<forall>op\<in>set ops. is_delete op) \<and>
     (\<forall>(k, item)\<in>set cur. pd_get ni k = None \<longrightarrow> (\<exists>op\<in>set ops. deletes_id (field_of_science_id item) op)) \<and>
     (\<forall>k e. DeleteFailed k e \<in> set ops \<longrightarrow> LogError (delete_error_msg k e) \<in> set lg)"
proof (induction cur arbitrary: st)
  case Nil
  show ?case by simp
next
  case (Cons a cur)
  obtain k item where a: "a = (k, item)" by (cases a)
  consider (kept) "pd_get ni k \<noteq> None"
      and "delete_old be ni ((k, item) # cur) st = delete_old be ni cur st"
  | (deleted) "pd_get ni k = None" and "delete_error be (table st) item = None"
      and "delete_old be ni ((k, item) # cur) st = delete_old be ni cur (delete_step item st)"
  | (rejected) e where "pd_get ni k = None" and "delete_error be (table st) item = Some e"
      and "delete_old be ni ((k, item) # cur) st = delete_old be ni cur (delete_reject_step item e st)"
    by (rule delete_old_Cons_cases [where ni=ni and k=k and be=be and st=st and item=item and rest=cur])
  then show ?case
  proof cases
    case kept
    from Cons.IH [of st] kept(1) show ?thesis unfolding a kept(2) by auto
  next
    case deleted
    from Cons.IH [of "delete_step item st"] obtain ops lg where
      j: "journal (delete_old be ni cur (delete_step item st)) = journal (delete_step item st) @ ops"
      and l: "log (delete_old be ni cur (delete_step item st)) = log (delete_step item st) @ lg"
      and d: "\<forall>op\<in>set ops. is_delete op"
      and at: "\<forall>(k, item)\<in>set cur. pd_get ni k = None \<longrightarrow> (\<exists>op\<in>set ops. deletes_id (field_of_science_id item) op)"
      and lgd: "\<forall>k e. DeleteFailed k e \<in> set ops \<longrightarrow> LogError (delete_error_msg k e) \<in> set lg"
      by blast
    let ?ops = "DeleteOk (field_of_science_id item) # ops"
    let ?lg = "LogInfo (''FOS'' @ '' delete field_of_science_id='' @ py_str PNone) # lg"
    have "journal (delete_old be ni (a # cur) st) = journal st @ ?ops"
      using j unfolding a deleted(3) by (simp add: delete_step_def)
    moreover have "log (delete_old be ni (a # cur) st) = log st @ ?lg"
      using l unfolding a deleted(3) by (simp add: delete_step_def)
    moreover have "\<forall>op\<in>set ?ops. is_delete op" using d by simp
    moreover have "\<forall>(k, item)\<in>set (a # cur). pd_get ni k = None \<longrightarrow> (\<exists>op\<in>set ?ops. deletes_id (field_of_science_id item) op)"
      using at by (auto simp: a)
    moreover have "\<forall>k e. DeleteFailed k e \<in> set ?ops \<longrightarrow> LogError (delete_error_msg k e) \<in> set ?lg"
      using lgd by auto
    ultimately show ?thesis by blast
  next
    case (rejected e)
    from Cons.IH [of "delete_reject_step item e st"] obtain ops lg where
      j: "journal (delete_old be ni cur (delete_reject_step item e st)) = journal (delete_reject_step item e st) @ ops"
      and l: "log (delete_old be ni cur (delete_reject_step item e st)) = log (delete_reject_step item e st) @ lg"
      and d: "\<forall>op\<in>set ops. is_delete op"
      and at: "\<forall>(k, item)\<in>set cur. pd_get ni k = None \<longrightarrow> (\<exists>op\<in>set ops. deletes_id (field_of_science_id item) op)"
      and lgd: "\<forall>k e. DeleteFailed k e \<in> set ops \<longrightarrow> LogError (delete_error_msg k e) \<in> set lg"
      by blast
    let ?ops = "DeleteFailed (field_of_science_id item) e # ops"
    let ?lg = "LogError (delete_error_msg (field_of_science_id item) e) # lg"
    have "journal (delete_old be ni (a # cur) st) = journal st @ ?ops"
      using j unfolding a rejected(3) by (simp add: delete_reject_step_def)
    moreover have "log (delete_old be ni (a # cur) st) = log st @ ?lg"
      using l unfolding a rejected(3) by (simp add: delete_reject_step_def)
    moreover have "\<forall>op\<in>set ?ops. is_delete op" using d by simp
    moreover have "\<forall>(k, item)\<in>set (a # cur). pd_get ni k = None \<longrightarrow> (\<exists>op\<in>set ?ops. deletes_id (field_of_science_id item) op)"
      using at by (auto simp: a)
    moreover have "\<forall>k e. DeleteFailed k e \<in> set ?ops \<longrightarrow> LogError (delete_error_msg k e) \<in> set ?lg"
      using lgd by auto
    ultimately show ?thesis by blast
  qed
qed

lemma delete_old_stats:
  "MyUpdateStat (delete_old be ni cur st) = MyUpdateStat st \<and> MySkipStat (delete_old be ni cur st) = MySkipStat st"
proof (induction cur arbitrary: st)
  case Nil
  show ?case by simp
next
  case (Cons a cur)
  obtain k item where a: "a = (k, item)" by (cases a)
  consider (kept) "pd_get ni k \<noteq> None"
      and "delete_old be ni ((k, item) # cur) st = delete_old be ni cur st"
  | (deleted) "pd_get ni k = None" and "delete_error be (table st) item = None"
      and "delete_old be ni ((k, item) # cur) st = delete_old be ni cur (delete_step item st)"
  | (rejected) e where "pd_get ni k = None" and "delete_error be (table st) item = Some e"
      and "delete_old be ni ((k, item) # cur) st = delete_old be ni cur (delete_reject_step item e st)"
    by (rule delete_old_Cons_cases [where ni=ni and k=k and be=be and st=st and item=item and rest=cur])
  then show ?case
  proof cases
    case kept
    from Cons.IH [of st] kept(1) show ?thesis unfolding a kept(2) by auto
  next
    case deleted
    from Cons.IH [of "delete_step item st"] show ?thesis
      unfolding a deleted(3) by (simp add: delete_step_def)
  next
    case (rejected e)
    from Cons.IH [of "delete_reject_step item e st"] show ?thesis
      unfolding a rejected(3) by (simp add: delete_reject_step_def)
  qed
qed

lemma Store_Destination_cases:
  assumes "Store_Destination be md5 ni st = (res, st')"
  obtains
    (early) "store_new be md5 (snd (load_cur md5 (table st) ([], []))) ni st = (Some res, st')"
  | (full) st1 where "store_new be md5 (snd (load_cur md5 (table st) ([], []))) ni st = (None, st1)"
      and "res = Returned (True, [])"
      and "st' = delete_old be ni (fst (load_cur md5 (table st) ([], []))) st1"
  using assms
  by (auto simp: Store_Destination_def split: prod.splits option.splits)

lemma new_ops_append: "journal st' = journal st @ ops \<Longrightarrow> new_ops st st' = ops"
  by (simp add: new_ops_def)

lemma new_log_append: "log st' = log st @ lg \<Longrightarrow> new_log st st' = lg"
  by (simp add: new_log_def)

lemma upsert_ok_not_failed: "is_upsert_ok op \<Longrightarrow> op \<noteq> UpsertFailed k e \<and> \<not> is_delete op \<and> op \<noteq> DeleteFailed k e"
  by (cases op) auto

lemma is_delete_not_upsert: "is_delete op \<Longrightarrow> op \<noteq> UpsertFailed k e \<and> \<not> is_upsert_ok op"
  by (cases op) auto

text \<open>
  C6. When an upsert is rejected with a data or an integrity error, the exception does
  not leave \<^verbatim>\<open>Store_Destination\<close>: the run returns the flag \<^verbatim>\<open>False\<close> with a message, and
  that message, which names the exception and carries the id of the record, is the last
  line of the log, at level error.
\<close>

theorem upsert_failure_reported:
  assumes "Store_Destination be md5 new_items st = (res, st')"
    and "UpsertFailed k e \<in> set (new_ops st st')"
  shows "res = Returned (False, type_name e @ '' saving ID='' @ py_str k @ '': '' @ error_str e)
       \<and> new_log st st' \<noteq> []
       \<and> last (new_log st st') = LogError (type_name e @ '' saving ID='' @ py_str k @ '': '' @ error_str e)
       \<and> (\<forall>m. res \<noteq> Returned (True, m)) \<and> (\<forall>x. res \<noteq> Raised x)"
  using assms(1)
proof (cases rule: Store_Destination_cases)
  case early
  from store_new_shape [OF early] obtain oks dbg where oks: "\<forall>op\<in>set oks. is_upsert_ok op"
    and c1: "(\<forall>b msg. Some res \<noteq> Some (Returned (b, msg))) \<longrightarrow>
        journal st' = journal st @ oks \<and> log st' = log st @ dbg"
    and c2: "\<forall>b msg. Some res = Some (Returned (b, msg)) \<longrightarrow>
        \<not> b \<and> (\<exists>k e. msg = save_error_msg k e \<and> journal st' = journal st @ oks @ [UpsertFailed k e]
                      \<and> log st' = log st @ dbg @ [LogError msg])"
    by blast
  show ?thesis
  proof (cases "\<exists>b msg. res = Returned (b, msg)")
    case True
    then obtain b msg where r: "res = Returned (b, msg)" by blast
    with c2 obtain k' e' where b: "\<not> b" and m: "msg = save_error_msg k' e'"
      and j: "journal st' = journal st @ oks @ [UpsertFailed k' e']"
      and l: "log st' = log st @ dbg @ [LogError msg]"
      by blast
    from assms(2) new_ops_append [OF j] oks have "k' = k \<and> e' = e"
      by (auto dest: upsert_ok_not_failed)
    with r b m new_log_append [OF l] show ?thesis
      by (simp add: save_error_msg_def)
  next
    case False
    with c1 have "journal st' = journal st @ oks" by simp
    from assms(2) new_ops_append [OF this] oks show ?thesis
      by (auto dest: upsert_ok_not_failed)
  qed
next
  case (full st1)
  from store_new_shape [OF full(1)] obtain oks where oks: "\<forall>op\<in>set oks. is_upsert_ok op"
    and j1: "journal st1 = journal st @ oks"
    by auto
  from delete_old_shape [of be new_items "fst (load_cur md5 (table st) ([], []))" st1] full(3)
  obtain ops where j2: "journal st' = journal st1 @ ops" and d: "\<forall>op\<in>set ops. is_delete op"
    by auto
  from j1 j2 have "journal st' = journal st @ (oks @ ops)" by simp
  from assms(2) new_ops_append [OF this] oks d show ?thesis
    by (auto dest: upsert_ok_not_failed is_delete_not_upsert)
qed

theorem upsert_failure_reported_witness:
  "fst (Store_Destination (reject_upsert (PInt 2)) id
          [(PInt 1, source_record 1 ''Physics''), (PInt 2, source_record 2 ''Chemistry'')] (start_state []))
     = Returned (False, ''DataError saving ID=2: value too long'')
   \<and> last (log (snd (Store_Destination (reject_upsert (PInt 2)) id
          [(PInt 1, source_record 1 ''Physics''), (PInt 2, source_record 2 ''Chemistry'')] (start_state []))))
     = LogError ''DataError saving ID=2: value too long''"
proof -
  let ?run = "Store_Destination (reject_upsert (PInt 2)) id
          [(PInt 1, source_record 1 ''Physics''), (PInt 2, source_record 2 ''Chemistry'')] (start_state [])"
  have e: "?run = (fst ?run, snd ?run)" by simp
  have j: "UpsertFailed (PInt 2) (DataError ''value too long'') \<in> set (new_ops (start_state []) (snd ?run))"
    by code_simp
  have s: "str_int 2 = ''2''" by code_simp
  have l: "new_log (start_state []) (snd ?run) = log (snd ?run)"
    by (simp add: new_log_def start_state_def)
  from upsert_failure_reported [OF e j] show ?thesis
    by (simp add: s l)
qed


lemma store_new_no_delete:
  assumes "store_new be md5 cd items st = (res, st')"
  shows "\<exists>ops. journal st' = journal st @ ops \<and> (\<forall>op\<in>set ops. \<not> is_delete op)"
proof -
  from store_new_shape [OF assms] obtain oks dbg where oks: "\<forall>op\<in>set oks. is_upsert_ok op"
    and c1: "(\<forall>b msg. res \<noteq> Some (Returned (b, msg))) \<longrightarrow>
        journal st' = journal st @ oks \<and> log st' = log st @ dbg"
    and c2: "\<forall>b msg. res = Some (Returned (b, msg)) \<longrightarrow>
        \<not> b \<and> (\<exists>k e. msg = save_error_msg k e \<and> journal st' = journal st @ oks @ [UpsertFailed k e]
                      \<and> log st' = log st @ dbg @ [LogError msg])"
    by blast
  from oks have nd: "\<forall>op\<in>set oks. \<not> is_delete op"
    by (auto dest: upsert_ok_not_failed)
  show ?thesis
  proof (cases "\<exists>b msg. res = Some (Returned (b, msg))")
    case True
    with c2 obtain k e where "journal st' = journal st @ (oks @ [UpsertFailed k e])"
      by auto
    moreover have "\<forall>op\<in>set (oks @ [UpsertFailed k e]). \<not> is_delete op"
      using nd by simp
    ultimately show ?thesis by blast
  next
    case False
    with c1 nd show ?thesis by blast
  qed
qed

text \<open>
  C7. A delete that the destination rejects with a data or an integrity error is logged
  at level error and is not fatal: the run returns \<^verbatim>\<open>(True, '')\<close>, and every record of the
  destination whose id is not in the snapshot has had its delete asked for.
\<close>

theorem delete_failure_not_fatal:
  assumes "Store_Destination be md5 new_items st = (res, st')"
    and "DeleteFailed k e \<in> set (new_ops st st')"
  shows "res = Returned (True, [])
       \<and> LogError (type_name e @ '' deleting ID='' @ py_str k @ '': '' @ error_str e) \<in> set (new_log st st')
       \<and> (\<forall>x\<in>set (table st). py_key (field_of_science_id x) \<notin> pd_keys new_items \<longrightarrow>
            (\<exists>op\<in>set (new_ops st st'). deletes_id (field_of_science_id x) op))"
  using assms(1)
proof (cases rule: Store_Destination_cases)
  case early
  from store_new_no_delete [OF early] obtain ops where j: "journal st' = journal st @ ops"
    and nd: "\<forall>op\<in>set ops. \<not> is_delete op"
    by blast
  from assms(2) j have "DeleteFailed k e \<in> set ops"
    by (simp add: new_ops_def)
  with nd have "\<not> is_delete (DeleteFailed k e)" by blast
  then show ?thesis by simp
next
  case (full st1)
  let ?cur = "fst (load_cur md5 (table st) ([], []))"
  from store_new_shape [OF full(1)] obtain oks dbg where oks: "\<forall>op\<in>set oks. is_upsert_ok op"
    and j1: "journal st1 = journal st @ oks" and l1: "log st1 = log st @ dbg"
    by auto
  from delete_old_shape [of be new_items ?cur st1] full(3)
  obtain ops lg where j2: "journal st' = journal st1 @ ops" and l2: "log st' = log st1 @ lg"
    and at: "\<forall>(k, item)\<in>set ?cur. pd_get new_items k = None \<longrightarrow> (\<exists>op\<in>set ops. deletes_id (field_of_science_id item) op)"
    and lgd: "\<forall>k e. DeleteFailed k e \<in> set ops \<longrightarrow> LogError (delete_error_msg k e) \<in> set lg"
    by auto
  from j1 j2 have no: "new_ops st st' = oks @ ops" by (simp add: new_ops_def)
  from l1 l2 have nl: "new_log st st' = dbg @ lg" by (simp add: new_log_def)
  from assms(2) no oks have "DeleteFailed k e \<in> set ops"
    by (auto dest: upsert_ok_not_failed)
  with lgd have logged: "LogError (delete_error_msg k e) \<in> set (new_log st st')"
    by (simp add: nl)
  have ent: "\<forall>(k, item)\<in>set ?cur. py_eq (field_of_science_id item) k"
    by (rule load_cur_entries) simp
  have all: "\<exists>op\<in>set (new_ops st st'). deletes_id (field_of_science_id x) op"
    if x: "x \<in> set (table st)" and nk: "py_key (field_of_science_id x) \<notin> pd_keys new_items" for x
  proof -
    from x have "py_key (field_of_science_id x) \<in> pd_keys ?cur"
      by (simp add: load_cur_keys db_ids_def)
    then obtain k item where m: "(k, item) \<in> set ?cur" and kk: "py_key k = py_key (field_of_science_id x)"
      by (auto simp: pd_keys_def)
    from nk kk have "pd_get new_items k = None"
      by (simp add: pd_get_None_iff)
    with at m obtain op where op: "op \<in> set ops" and d: "deletes_id (field_of_science_id item) op"
      by blast
    from ent m have "py_eq (field_of_science_id item) k" by blast
    with kk have "py_key (field_of_science_id item) = py_key (field_of_science_id x)"
      by (simp add: py_eq_def)
    with d have "deletes_id (field_of_science_id x) op"
      by (cases op) (simp_all add: py_eq_def)
    with op show ?thesis by (auto simp: no)
  qed
  from full(2) logged all show ?thesis
    by (simp add: delete_error_msg_def)
qed

theorem delete_failure_not_fatal_witness:
  "Store_Destination reject_deletes id [(PInt 1, source_record 1 ''Physics'')]
      (start_state [stored_record 8 ''Alchemy'', stored_record 9 ''Astrology''])
     = (Returned (True, []),
        \<lparr> table = [stored_record 8 ''Alchemy'', stored_record 9 ''Astrology'', stored_record 1 ''Physics''],
          journal = [UpsertOk (PInt 1), DeleteFailed (PInt 8) (IntegrityError ''still referenced''),
                     DeleteFailed (PInt 9) (IntegrityError ''still referenced'')],
          log = [LogDebug ''FOS save field_of_science_id=1'',
                 LogError ''IntegrityError deleting ID=8: still referenced'',
                 LogError ''IntegrityError deleting ID=9: still referenced''],
          MyUpdateStat = 1, MyDeleteStat = 0, MySkipStat = 0 \<rparr>)
   \<and> LogError ''IntegrityError deleting ID=8: still referenced''
       \<in> set (new_log (start_state [stored_record 8 ''Alchemy'', stored_record 9 ''Astrology''])
             (snd (Store_Destination reject_deletes id [(PInt 1, source_record 1 ''Physics'')]
                (start_state [stored_record 8 ''Alchemy'', stored_record 9 ''Astrology'']))))"
proof -
  let ?st = "start_state [stored_record 8 ''Alchemy'', stored_record 9 ''Astrology'']"
  let ?run = "Store_Destination reject_deletes id [(PInt 1, source_record 1 ''Physics'')] ?st"
  have v: "?run = (Returned (True, []),
        \<lparr> table = [stored_record 8 ''Alchemy'', stored_record 9 ''Astrology'', stored_record 1 ''Physics''],
          journal = [UpsertOk (PInt 1), DeleteFailed (PInt 8) (IntegrityError ''still referenced''),
                     DeleteFailed (PInt 9) (IntegrityError ''still referenced'')],
          log = [LogDebug ''FOS save field_of_science_id=1'',
                 LogError ''IntegrityError deleting ID=8: still referenced'',
                 LogError ''IntegrityError deleting ID=9: still referenced''],
          MyUpdateStat = 1, MyDeleteStat = 0, MySkipStat = 0 \<rparr>)"
    by code_simp
  have e: "?run = (fst ?run, snd ?run)" by simp
  have j: "DeleteFailed (PInt 8) (IntegrityError ''still referenced'') \<in> set (new_ops ?st (snd ?run))"
    by code_simp
  have s: "str_int 8 = ''8''" by code_simp
  from delete_failure_not_fatal [OF e j, THEN conjunct2, THEN conjunct1] v show ?thesis
    by (simp add: s)
qed

lemma upsert_args_Inr:
  assumes "upsert_args nitem = Inr r"
  shows "\<exists>fid parent desc nsf abbrev active.
           map_of nitem ''field_of_science_id'' = Some fid \<and>
           map_of nitem ''parent_field_of_science_id'' = Some parent \<and>
           map_of nitem ''field_of_science_desc'' = Some desc \<and>
           map_of nitem ''fos_nsf_id'' = Some nsf \<and>
           map_of nitem ''fos_nsf_abbrev'' = Some abbrev \<and>
           map_of nitem ''is_active'' = Some active \<and>
           r = \<lparr> field_of_science_id = fid, parent_field_of_science_id = parent,
                 field_of_science_desc = PStr (py_str desc), fos_nsf_id = nsf,
                 fos_nsf_abbrev = PStr (py_str abbrev), is_active = PStr (py_str active) \<rparr>"
  using assms
  by (auto simp: upsert_args_def subscript_def split: option.splits)

lemma snapshot_wf_id:
  assumes "snapshot_wf items" and "(k, nitem) \<in> set items" and "upsert_args nitem = Inr r"
  shows "py_eq (field_of_science_id r) k"
proof -
  from upsert_args_Inr [OF assms(3)] obtain fid where
    "map_of nitem ''field_of_science_id'' = Some fid" and "field_of_science_id r = fid"
    by auto
  with assms(1,2) show ?thesis
    by (auto simp: snapshot_wf_def)
qed

lemma store_new_delete_stat:
  "store_new be md5 cd items st = (res, st') \<Longrightarrow> MyDeleteStat st' = MyDeleteStat st"
proof (induction items arbitrary: st)
  case Nil
  then show ?case by auto
next
  case (Cons a items)
  obtain k0 n0 where a: "a = (k0, n0)" by (cases a)
  from Cons.prems [unfolded a] show ?case
  proof (cases rule: store_new_Cons_cases)
    case skip
    from Cons.IH [OF skip(2)] show ?thesis by simp
  next
    case (keyerror x)
    then show ?thesis by simp
  next
    case (written r)
    from Cons.IH [OF written(4)] show ?thesis by (simp add: upsert_step_def)
  next
    case (rejected r e)
    then show ?thesis by simp
  qed
qed

lemma store_new_find_other:
  "store_new be md5 cd items st = (res, st') \<Longrightarrow>
   (\<forall>(k, nitem)\<in>set items. \<forall>r. upsert_args nitem = Inr r \<longrightarrow> \<not> py_eq (field_of_science_id r) k') \<Longrightarrow>
   db_find (table st') k' = db_find (table st) k'"
proof (induction items arbitrary: st)
  case Nil
  then show ?case by auto
next
  case (Cons a items)
  obtain k0 n0 where a: "a = (k0, n0)" by (cases a)
  from Cons.prems(2) have rest: "\<forall>(k, nitem)\<in>set items. \<forall>r. upsert_args nitem = Inr r \<longrightarrow> \<not> py_eq (field_of_science_id r) k'"
    by simp
  from Cons.prems(1) [unfolded a] show ?case
  proof (cases rule: store_new_Cons_cases)
    case skip
    from Cons.IH [OF skip(2) rest] show ?thesis by simp
  next
    case (keyerror x)
    then show ?thesis by simp
  next
    case (written r)
    from Cons.prems(2) written(2) have "\<not> py_eq (field_of_science_id r) k'"
      by (simp add: a)
    with Cons.IH [OF written(4) rest] show ?thesis
      by (simp add: upsert_step_def db_find_upsert)
  next
    case (rejected r e)
    then show ?thesis by simp
  qed
qed

lemma store_new_fail_prefix:
  "store_new be md5 cd items st = (Some (Returned (b, msg)), st') \<Longrightarrow>
   \<exists>pre k0 n0 post st1 r e.
     items = pre @ (k0, n0) # post \<and> store_new be md5 cd pre st = (None, st1) \<and>
     Some (dict_digest md5 n0) \<noteq> pd_get cd k0 \<and>
     upsert_args n0 = Inr r \<and> upsert_error be (table st1) r = Some e \<and>
     msg = save_error_msg (field_of_science_id r) e \<and>
     st' = st1\<lparr>journal := journal st1 @ [UpsertFailed (field_of_science_id r) e],
               log := log st1 @ [LogError msg]\<rparr>"
proof (induction items arbitrary: st)
  case Nil
  then show ?case by auto
next
  case (Cons a items)
  obtain k n where a: "a = (k, n)" by (cases a)
  from Cons.prems [unfolded a] show ?case
  proof (cases rule: store_new_Cons_cases)
    case skip
    from Cons.IH [OF skip(2)] obtain pre k0 n0 post st1 r e where
      i: "items = pre @ (k0, n0) # post" and p: "store_new be md5 cd pre (st\<lparr>MySkipStat := MySkipStat st + 1\<rparr>) = (None, st1)"
      and rest: "Some (dict_digest md5 n0) \<noteq> pd_get cd k0 \<and>
        upsert_args n0 = Inr r \<and> upsert_error be (table st1) r = Some e \<and>
        msg = save_error_msg (field_of_science_id r) e \<and>
        st' = st1\<lparr>journal := journal st1 @ [UpsertFailed (field_of_science_id r) e],
               log := log st1 @ [LogError msg]\<rparr>"
      by blast
    have "a # items = ((k, n) # pre) @ (k0, n0) # post" by (simp add: a i)
    moreover have "store_new be md5 cd ((k, n) # pre) st = (None, st1)"
      using skip(1) p by simp
    ultimately show ?thesis using rest by blast
  next
    case (keyerror x)
    then show ?thesis by simp
  next
    case (written r')
    from Cons.IH [OF written(4)] obtain pre k0 n0 post st1 r e where
      i: "items = pre @ (k0, n0) # post" and p: "store_new be md5 cd pre (upsert_step r' st) = (None, st1)"
      and rest: "Some (dict_digest md5 n0) \<noteq> pd_get cd k0 \<and>
        upsert_args n0 = Inr r \<and> upsert_error be (table st1) r = Some e \<and>
        msg = save_error_msg (field_of_science_id r) e \<and>
        st' = st1\<lparr>journal := journal st1 @ [UpsertFailed (field_of_science_id r) e],
               log := log st1 @ [LogError msg]\<rparr>"
      by blast
    have "a # items = ((k, n) # pre) @ (k0, n0) # post" by (simp add: a i)
    moreover have "store_new be md5 cd ((k, n) # pre) st = (None, st1)"
      using written(1,2,3) p by simp
    ultimately show ?thesis using rest by blast
  next
    case (rejected r e)
    have "a # items = [] @ (k, n) # items" by (simp add: a)
    moreover have "store_new be md5 cd [] st = (None, st)" by simp
    ultimately show ?thesis using rejected by blast
  qed
qed

text \<open>
  C8. \<^verbatim>\<open>Store_Destination\<close> stops at the first rejected upsert: when it returns
  \<^verbatim>\<open>(False, msg)\<close>, the snapshot splits into the items before the rejected one, the
  rejected one and the items after it; the table is what the loop over the items before
  it has made of it; the rejected upsert is the last entry of the journal, which has no
  delete; and no id has left the destination, so that every record whose id is not in
  the snapshot is still there, unchanged when the snapshot is well formed.
\<close>

theorem upsert_failure_stops_run:
  assumes "Store_Destination be md5 new_items st = (Returned (False, msg), st')"
  shows "(\<exists>pre k0 n0 post st1 r e.
            new_items = pre @ (k0, n0) # post \<and>
            store_new be md5 (snd (load_cur md5 (table st) ([], []))) pre st = (None, st1) \<and>
            upsert_args n0 = Inr r \<and> upsert_error be (table st1) r = Some e \<and>
            table st' = table st1 \<and>
            new_ops st st' = new_ops st st1 @ [UpsertFailed (field_of_science_id r) e])
       \<and> (\<forall>op\<in>set (new_ops st st'). \<not> is_delete op)
       \<and> MyDeleteStat st' = MyDeleteStat st
       \<and> db_ids (table st) \<subseteq> db_ids (table st')
       \<and> (snapshot_wf new_items \<longrightarrow>
            (\<forall>x\<in>set (table st). py_key (field_of_science_id x) \<notin> pd_keys new_items \<longrightarrow> x \<in> set (table st')))"
  using assms
proof (cases rule: Store_Destination_cases)
  case early
  let ?cd = "snd (load_cur md5 (table st) ([], []))"
  from store_new_fail_prefix [OF early] obtain pre k0 n0 post st1 r e where
    i: "new_items = pre @ (k0, n0) # post" and p: "store_new be md5 ?cd pre st = (None, st1)"
    and ua: "upsert_args n0 = Inr r" and ue: "upsert_error be (table st1) r = Some e"
    and st': "st' = st1\<lparr>journal := journal st1 @ [UpsertFailed (field_of_science_id r) e],
               log := log st1 @ [LogError msg]\<rparr>"
    by blast
  from store_new_no_delete [OF p] obtain ops1 where j1: "journal st1 = journal st @ ops1"
    by blast
  have no: "new_ops st st' = new_ops st st1 @ [UpsertFailed (field_of_science_id r) e]"
    by (simp add: new_ops_def st' j1)
  have 1: "\<exists>pre k0 n0 post st1 r e.
            new_items = pre @ (k0, n0) # post \<and>
            store_new be md5 ?cd pre st = (None, st1) \<and>
            upsert_args n0 = Inr r \<and> upsert_error be (table st1) r = Some e \<and>
            table st' = table st1 \<and>
            new_ops st st' = new_ops st st1 @ [UpsertFailed (field_of_science_id r) e]"
    using i p ua ue no st' by (intro exI [of _ pre] exI [of _ k0] exI [of _ n0] exI [of _ post] exI [of _ st1] exI [of _ r] exI [of _ e]) simp
  from store_new_no_delete [OF early] have 2: "\<forall>op\<in>set (new_ops st st'). \<not> is_delete op"
    by (auto simp: new_ops_def)
  have 3: "MyDeleteStat st' = MyDeleteStat st"
    by (rule store_new_delete_stat [OF early])
  have 4: "db_ids (table st) \<subseteq> db_ids (table st')"
    by (rule store_new_ids_mono [OF early])
  have 5: "x \<in> set (table st')" if wf: "snapshot_wf new_items" and x: "x \<in> set (table st)"
    and nk: "py_key (field_of_science_id x) \<notin> pd_keys new_items" for x
  proof (rule store_new_keeps [OF early x])
    show "\<forall>(k, nitem)\<in>set new_items. \<forall>r. upsert_args nitem = Inr r \<longrightarrow>
            \<not> py_eq (field_of_science_id x) (field_of_science_id r)"
    proof (clarify)
      fix k nitem r
      assume m: "(k, nitem) \<in> set new_items" and u: "upsert_args nitem = Inr r"
        and eq: "py_eq (field_of_science_id x) (field_of_science_id r)"
      from snapshot_wf_id [OF wf m u] eq have "py_key (field_of_science_id x) = py_key k"
        by (simp add: py_eq_def)
      with m nk show False
        by (force simp: pd_keys_def)
    qed
  qed
  from 1 2 3 4 5 show ?thesis by blast
next
  case (full st1)
  then show ?thesis by simp
qed

theorem upsert_failure_stops_run_witness:
  "Store_Destination (reject_upsert (PInt 2)) id
      [(PInt 1, source_record 1 ''Physics''), (PInt 2, source_record 2 ''Chemistry''), (PInt 3, source_record 3 ''Biology'')]
      (start_state [stored_record 9 ''Astrology''])
     = (Returned (False, ''DataError saving ID=2: value too long''),
        \<lparr> table = [stored_record 9 ''Astrology'', stored_record 1 ''Physics''],
          journal = [UpsertOk (PInt 1), UpsertFailed (PInt 2) (DataError ''value too long'')],
          log = [LogDebug ''FOS save field_of_science_id=1'', LogError ''DataError saving ID=2: value too long''],
          MyUpdateStat = 1, MyDeleteStat = 0, MySkipStat = 0 \<rparr>)
   \<and> snapshot_wf [(PInt 1, source_record 1 ''Physics''), (PInt 2, source_record 2 ''Chemistry''), (PInt 3, source_record 3 ''Biology'')]
   \<and> stored_record 9 ''Astrology'' \<in> set (table (snd (Store_Destination (reject_upsert (PInt 2)) id
      [(PInt 1, source_record 1 ''Physics''), (PInt 2, source_record 2 ''Chemistry''), (PInt 3, source_record 3 ''Biology'')]
      (start_state [stored_record 9 ''Astrology'']))))"
proof -
  let ?src = "[(PInt 1, source_record 1 ''Physics''), (PInt 2, source_record 2 ''Chemistry''), (PInt 3, source_record 3 ''Biology'')]"
  let ?st = "start_state [stored_record 9 ''Astrology'']"
  let ?st' = "\<lparr> table = [stored_record 9 ''Astrology'', stored_record 1 ''Physics''],
          journal = [UpsertOk (PInt 1), UpsertFailed (PInt 2) (DataError ''value too long'')],
          log = [LogDebug ''FOS save field_of_science_id=1'', LogError ''DataError saving ID=2: value too long''],
          MyUpdateStat = 1, MyDeleteStat = 0, MySkipStat = 0 \<rparr>"
  have e: "Store_Destination (reject_upsert (PInt 2)) id ?src ?st
     = (Returned (False, ''DataError saving ID=2: value too long''), ?st')"
    by code_simp
  have wf: "snapshot_wf ?src" by code_simp
  have x: "stored_record 9 ''Astrology'' \<in> set (table ?st)" by (simp add: start_state_def)
  have nk: "py_key (field_of_science_id (stored_record 9 ''Astrology'')) \<notin> pd_keys ?src"
    by (simp add: stored_record_def)
  from upsert_failure_stops_run [OF e] wf x nk have "stored_record 9 ''Astrology'' \<in> set (table ?st')"
    by blast
  with e wf show ?thesis by simp
qed

lemma store_new_upserts_keys:
  "store_new be md5 cd items st = (res, st') \<Longrightarrow>
   (\<forall>(k, nitem)\<in>set items. \<forall>r. upsert_args nitem = Inr r \<longrightarrow> py_eq (field_of_science_id r) k) \<Longrightarrow>
   op \<in> set (new_ops st st') \<Longrightarrow> upserts_id k op \<Longrightarrow> py_key k \<in> pd_keys items"
proof (induction items arbitrary: st)
  case Nil
  then show ?case by (auto simp: new_ops_def)
next
  case (Cons a items)
  obtain k0 n0 where a: "a = (k0, n0)" by (cases a)
  from Cons.prems(2) have rest: "\<forall>(k, nitem)\<in>set items. \<forall>r. upsert_args nitem = Inr r \<longrightarrow> py_eq (field_of_science_id r) k"
    by simp
  from Cons.prems(1) [unfolded a] show ?case
  proof (cases rule: store_new_Cons_cases)
    case skip
    from Cons.prems(3) have "op \<in> set (new_ops (st\<lparr>MySkipStat := MySkipStat st + 1\<rparr>) st')"
      by (simp add: new_ops_def)
    from Cons.IH [OF skip(2) rest this Cons.prems(4)] show ?thesis by (simp add: a)
  next
    case (keyerror x)
    with Cons.prems(3) show ?thesis by (simp add: new_ops_def)
  next
    case (written r)
    from store_new_no_delete [OF written(4)] obtain ops where
      j: "journal st' = journal (upsert_step r st) @ ops" by blast
    then have no: "new_ops st st' = UpsertOk (field_of_science_id r) # new_ops (upsert_step r st) st'"
      by (simp add: new_ops_def upsert_step_def)
    from Cons.prems(2) written(2) have rk: "py_eq (field_of_science_id r) k0"
      by (simp add: a)
    from Cons.prems(3) no consider "op = UpsertOk (field_of_science_id r)" | "op \<in> set (new_ops (upsert_step r st) st')"
      by auto
    then show ?thesis
    proof cases
      case 1
      with Cons.prems(4) rk show ?thesis by (simp add: a py_eq_def)
    next
      case 2
      from Cons.IH [OF written(4) rest 2 Cons.prems(4)] show ?thesis by (simp add: a)
    qed
  next
    case (rejected r e)
    with Cons.prems(3,4) show ?thesis by (simp add: new_ops_def)
  qed
qed

lemma store_new_written:
  "store_new be md5 cd items st = (res, st') \<Longrightarrow> pd_distinct items \<Longrightarrow>
   (\<forall>(k, nitem)\<in>set items. \<forall>r. upsert_args nitem = Inr r \<longrightarrow> py_eq (field_of_science_id r) k) \<Longrightarrow>
   (k, nitem) \<in> set items \<Longrightarrow> op \<in> set (new_ops st st') \<Longrightarrow> upserts_id k op \<Longrightarrow>
   \<exists>r. upsert_args nitem = Inr r \<and> db_find (table st') k = Some r"
proof (induction items arbitrary: st)
  case Nil
  then show ?case by simp
next
  case (Cons a items)
  obtain k0 n0 where a: "a = (k0, n0)" by (cases a)
  from Cons.prems(2) have d: "pd_distinct items" and fresh: "py_key k0 \<notin> pd_keys items"
    by (simp_all add: a)
  from Cons.prems(3) have rest: "\<forall>(k, nitem)\<in>set items. \<forall>r. upsert_args nitem = Inr r \<longrightarrow> py_eq (field_of_science_id r) k"
    by simp
  have other: "\<forall>(k', nitem)\<in>set items. \<forall>r. upsert_args nitem = Inr r \<longrightarrow> \<not> py_eq (field_of_science_id r) k0"
  proof clarify
    fix k' n' r'
    assume m: "(k', n') \<in> set items" and u: "upsert_args n' = Inr r'" and eq: "py_eq (field_of_science_id r') k0"
    from rest m u have "py_eq (field_of_science_id r') k'" by blast
    with eq have "py_key k0 = py_key k'" by (simp add: py_eq_def)
    with m fresh show False by (force simp: pd_keys_def)
  qed
  from Cons.prems(1) [unfolded a] show ?case
  proof (cases rule: store_new_Cons_cases)
    case skip
    from Cons.prems(5) have op: "op \<in> set (new_ops (st\<lparr>MySkipStat := MySkipStat st + 1\<rparr>) st')"
      by (simp add: new_ops_def)
    from store_new_upserts_keys [OF skip(2) rest op Cons.prems(6)] have kin: "py_key k \<in> pd_keys items" .
    with fresh have "k \<noteq> k0" by auto
    with Cons.prems(4) have "(k, nitem) \<in> set items" by (simp add: a)
    from Cons.IH [OF skip(2) d rest this op Cons.prems(6)] show ?thesis .
  next
    case (keyerror x)
    with Cons.prems(5) show ?thesis by (simp add: new_ops_def)
  next
    case (written r)
    from store_new_no_delete [OF written(4)] obtain ops where
      j: "journal st' = journal (upsert_step r st) @ ops" by blast
    then have no: "new_ops st st' = UpsertOk (field_of_science_id r) # new_ops (upsert_step r st) st'"
      by (simp add: new_ops_def upsert_step_def)
    from Cons.prems(3) written(2) have rk: "py_eq (field_of_science_id r) k0"
      by (simp add: a)
    show ?thesis
    proof (cases "py_key k = py_key k0")
      case True
      with fresh have "py_key k \<notin> pd_keys items" by simp
      with Cons.prems(4) have same: "k = k0 \<and> nitem = n0"
        by (force simp: a pd_keys_def)
      from store_new_find_other [OF written(4) other]
      have "db_find (table st') k0 = db_find (table (upsert_step r st)) k0" .
      also have "\<dots> = Some r"
        using rk by (simp add: upsert_step_def db_find_upsert)
      finally show ?thesis using same written(2) by simp
    next
      case False
      with Cons.prems(4) have m: "(k, nitem) \<in> set items" by (auto simp: a)
      from False rk Cons.prems(6) have "op \<noteq> UpsertOk (field_of_science_id r)"
        by (auto simp: py_eq_def)
      with Cons.prems(5) no have op: "op \<in> set (new_ops (upsert_step r st) st')" by simp
      from Cons.IH [OF written(4) d rest m op Cons.prems(6)] show ?thesis .
    qed
  next
    case (rejected r e)
    with Cons.prems(5,6) show ?thesis by (simp add: new_ops_def)
  qed
qed

lemma delete_old_find_kept:
  "pd_get ni k \<noteq> None \<Longrightarrow> (\<forall>(k', item)\<in>set cur. py_eq (field_of_science_id item) k') \<Longrightarrow>
   db_find (table (delete_old be ni cur st)) k = db_find (table st) k"
proof (induction cur arbitrary: st)
  case Nil
  show ?case by simp
next
  case (Cons a cur)
  obtain k' item where a: "a = (k', item)" by (cases a)
  from Cons.prems(2) have ent: "\<forall>(k', item)\<in>set cur. py_eq (field_of_science_id item) k'"
    and ik: "py_eq (field_of_science_id item) k'"
    by (simp_all add: a)
  consider (kept) "pd_get ni k' \<noteq> None"
      and "delete_old be ni ((k', item) # cur) st = delete_old be ni cur st"
  | (deleted) "pd_get ni k' = None" and "delete_error be (table st) item = None"
      and "delete_old be ni ((k', item) # cur) st = delete_old be ni cur (delete_step item st)"
  | (rejected) e where "pd_get ni k' = None" and "delete_error be (table st) item = Some e"
      and "delete_old be ni ((k', item) # cur) st = delete_old be ni cur (delete_reject_step item e st)"
    by (rule delete_old_Cons_cases [where ni=ni and k=k' and be=be and st=st and item=item and rest=cur])
  then show ?case
  proof cases
    case kept
    from Cons.IH [OF Cons.prems(1) ent, of st] show ?thesis unfolding a kept(2) .
  next
    case deleted
    from deleted(1) Cons.prems(1) have "py_key k' \<noteq> py_key k"
      by (auto simp: pd_get_None_iff)
    with ik have "\<not> py_eq (field_of_science_id item) k"
      by (simp add: py_eq_def)
    with Cons.IH [OF Cons.prems(1) ent, of "delete_step item st"] show ?thesis
      unfolding a deleted(3) by (simp add: delete_step_def db_find_delete)
  next
    case (rejected e)
    from Cons.IH [OF Cons.prems(1) ent, of "delete_reject_step item e st"] show ?thesis
      unfolding a rejected(3) by (simp add: delete_reject_step_def)
  qed
qed

section \<open>What an upsert writes\<close>

lemma snapshot_wf_ids:
  "snapshot_wf items \<Longrightarrow>
   \<forall>(k, nitem)\<in>set items. \<forall>r. upsert_args nitem = Inr r \<longrightarrow> py_eq (field_of_science_id r) k"
  using snapshot_wf_id by blast

lemma upserts_not_delete: "upserts_id k op \<Longrightarrow> \<not> is_delete op"
  by (cases op) auto

text \<open>
  C9. A record that \<^verbatim>\<open>Store_Destination\<close> has upserted stands in the destination with
  the id, parent id and external id of the source item and with the \<^verbatim>\<open>str()\<close> of its
  description, abbreviation and active flag: \<^verbatim>\<open>None\<close> is stored as the text \<^verbatim>\<open>'None'\<close>, a
  boolean as \<^verbatim>\<open>'True'\<close> or \<^verbatim>\<open>'False'\<close>.
\<close>

theorem upsert_passes_str:
  assumes "Store_Destination be md5 new_items st = (res, st')" and "snapshot_wf new_items"
    and "(k, nitem) \<in> set new_items" and "op \<in> set (new_ops st st')" and "upserts_id k op"
  shows "(\<exists>fid parent desc nsf abbrev active.
           map_of nitem ''field_of_science_id'' = Some fid \<and>
           map_of nitem ''parent_field_of_science_id'' = Some parent \<and>
           map_of nitem ''field_of_science_desc'' = Some desc \<and>
           map_of nitem ''fos_nsf_id'' = Some nsf \<and>
           map_of nitem ''fos_nsf_abbrev'' = Some abbrev \<and>
           map_of nitem ''is_active'' = Some active \<and>
           db_find (table st') k =
             Some \<lparr> field_of_science_id = fid, parent_field_of_science_id = parent,
                    field_of_science_desc = PStr (py_str desc), fos_nsf_id = nsf,
                    fos_nsf_abbrev = PStr (py_str abbrev), is_active = PStr (py_str active) \<rparr>)
       \<and> py_str PNone = ''None'' \<and> py_str (PBool True) = ''True'' \<and> py_str (PBool False) = ''False''"
proof -
  from assms(2) have d: "pd_distinct new_items" by (simp add: snapshot_wf_def)
  note ids = snapshot_wf_ids [OF assms(2)]
  have "\<exists>r. upsert_args nitem = Inr r \<and> db_find (table st') k = Some r"
    using assms(1)
  proof (cases rule: Store_Destination_cases)
    case early
    from store_new_written [OF early d ids assms(3,4,5)] show ?thesis .
  next
    case (full st1)
    let ?cur = "fst (load_cur md5 (table st) ([], []))"
    from store_new_no_delete [OF full(1)] obtain ops1 where j1: "journal st1 = journal st @ ops1"
      by blast
    from delete_old_shape [of be new_items ?cur st1] full(3)
    obtain ops2 where j2: "journal st' = journal st1 @ ops2" and dl: "\<forall>op\<in>set ops2. is_delete op"
      by auto
    from j1 j2 have "new_ops st st' = ops1 @ ops2" and "new_ops st st1 = ops1"
      by (simp_all add: new_ops_def)
    with assms(4) dl upserts_not_delete [OF assms(5)] have op1: "op \<in> set (new_ops st st1)"
      by auto
    from store_new_written [OF full(1) d ids assms(3) op1 assms(5)] obtain r where
      u: "upsert_args nitem = Inr r" and f: "db_find (table st1) k = Some r"
      by blast
    from assms(3) have "py_key k \<in> pd_keys new_items"
      by (force simp: pd_keys_def)
    then have "pd_get new_items k \<noteq> None"
      by (simp add: pd_get_None_iff)
    moreover have "\<forall>(k', item)\<in>set ?cur. py_eq (field_of_science_id item) k'"
      by (rule load_cur_entries) simp
    ultimately have "db_find (table st') k = db_find (table st1) k"
      unfolding full(3) by (rule delete_old_find_kept)
    with u f show ?thesis by simp
  qed
  then obtain r where u: "upsert_args nitem = Inr r" and f: "db_find (table st') k = Some r"
    by blast
  from upsert_args_Inr [OF u] f show ?thesis
    by auto
qed

theorem upsert_passes_str_witness:
  "Retrieve_Source (QueryRows fos_fields [[PInt 5, PNone, PStr ''Geology'', PInt 50, PStr ''none'', PBool True]]) []
     = (Inr [(PInt 5, [(''field_of_science_id'', PInt 5), (''parent_field_of_science_id'', PNone),
                       (''field_of_science_desc'', PStr ''Geology''), (''fos_nsf_id'', PInt 50),
                       (''fos_nsf_abbrev'', PNone), (''is_active'', PBool True)])], [])
   \<and> db_find (table (snd (Store_Destination accept_all id
          [(PInt 5, [(''field_of_science_id'', PInt 5), (''parent_field_of_science_id'', PNone),
                       (''field_of_science_desc'', PStr ''Geology''), (''fos_nsf_id'', PInt 50),
                       (''fos_nsf_abbrev'', PNone), (''is_active'', PBool True)])] (start_state [])))) (PInt 5)
     = Some \<lparr> field_of_science_id = PInt 5, parent_field_of_science_id = PNone,
              field_of_science_desc = PStr ''Geology'', fos_nsf_id = PInt 50,
              fos_nsf_abbrev = PStr ''None'', is_active = PStr ''True'' \<rparr>"
proof -
  let ?rec = "[(''field_of_science_id'', PInt 5), (''parent_field_of_science_id'', PNone),
                       (''field_of_science_desc'', PStr ''Geology''), (''fos_nsf_id'', PInt 50),
                       (''fos_nsf_abbrev'', PNone), (''is_active'', PBool True)]"
  let ?run = "Store_Destination accept_all id [(PInt 5, ?rec)] (start_state [])"
  have r: "Retrieve_Source (QueryRows fos_fields [[PInt 5, PNone, PStr ''Geology'', PInt 50, PStr ''none'', PBool True]]) []
     = (Inr [(PInt 5, ?rec)], [])"
    by code_simp
  have e: "?run = (fst ?run, snd ?run)" by simp
  have wf: "snapshot_wf [(PInt 5, ?rec)]" by code_simp
  have m: "(PInt 5, ?rec) \<in> set [(PInt 5, ?rec)]" by simp
  have op: "UpsertOk (PInt 5) \<in> set (new_ops (start_state []) (snd ?run))" by code_simp
  have u: "upserts_id (PInt 5) (UpsertOk (PInt 5))" by simp
  from upsert_passes_str [OF e wf m op u] r show ?thesis
    by simp
qed

section \<open>The normalization of the text none\<close>

lemma map_of_rd_set: "map_of (rd_set d k v) = (map_of d)(k \<mapsto> v)"
  by (induction d) (auto simp: fun_eq_iff)

lemma fst_set_rd_set: "fst ` set (rd_set d k v) = insert k (fst ` set d)"
proof (induction d)
  case Nil
  show ?case by simp
next
  case (Cons a d)
  obtain k' v' where a: "a = (k', v')" by (cases a)
  show ?case using Cons.IH by (cases "k' = k") (simp_all add: a insert_commute)
qed

lemma distinct_rd_set: "distinct (map fst d) \<Longrightarrow> distinct (map fst (rd_set d k v))"
proof (induction d)
  case Nil
  show ?case by simp
next
  case (Cons a d)
  obtain k' v' where a: "a = (k', v')" by (cases a)
  from Cons show ?case by (cases "k' = k") (simp_all add: a fst_set_rd_set)
qed

lemma distinct_fold_rd_set:
  "distinct (map fst acc) \<Longrightarrow> distinct (map fst (fold (\<lambda>(k, v) d. rd_set d k v) kvs acc))"
  by (induction kvs arbitrary: acc) (auto simp: distinct_rd_set)

lemma distinct_rd_dict: "distinct (map fst (rd_dict kvs))"
  by (simp add: rd_dict_def distinct_fold_rd_set)

lemma fst_normalize_none: "map fst (normalize_none d) = map fst d"
  by (simp add: normalize_none_def case_prod_unfold)

lemma map_of_normalize_none: "map_of (normalize_none d) f = dest_view d f"
  by (induction d) (auto simp: normalize_none_def dest_view_def none_to_null_def)

lemma distinct_model_to_dict: "distinct (map fst (model_to_dict item))"
  by (simp add: model_to_dict_def)

lemma read_row_view:
  assumes "read_row COLS row = Inr (key, r)"
  shows "map_of r = source_view (rd_dict (zip COLS row)) \<and> distinct (map fst r)
       \<and> map_of (rd_dict (zip COLS row)) ''field_of_science_id'' = Some key"
proof -
  let ?d = "rd_dict (zip COLS row)"
  from assms obtain na where na: "map_of ?d ''fos_nsf_abbrev'' = Some na"
    and key: "map_of ?d ''field_of_science_id'' = Some key"
    and r: "r = (if is_none_str na then rd_set ?d ''fos_nsf_abbrev'' PNone else ?d)"
    by (auto simp: read_row_def Let_def split: option.splits)
  have "map_of r f = source_view ?d f" for f
    using na by (simp add: r source_view_def map_of_rd_set none_to_null_def)
  moreover have "distinct (map fst r)"
    by (simp add: r distinct_rd_dict distinct_rd_set)
  ultimately show ?thesis using key by (simp add: fun_eq_iff)
qed

lemma pd_set_mem: "(k', r) \<in> set (pd_set d k v) \<Longrightarrow> (k', r) \<in> set d \<or> r = v"
  by (induction d) (auto split: if_splits)

lemma retrieve_rows_entries:
  "retrieve_rows COLS rows acc = Inr DATA \<Longrightarrow> (key, r) \<in> set DATA \<Longrightarrow>
   (key, r) \<in> set acc \<or> (\<exists>row\<in>set rows. \<exists>k'. read_row COLS row = Inr (k', r))"
proof (induction rows arbitrary: acc)
  case Nil
  then show ?case by simp
next
  case (Cons row rows)
  from Cons.prems(1) obtain k0 r0 where rr: "read_row COLS row = Inr (k0, r0)"
    and rest: "retrieve_rows COLS rows (pd_set acc k0 r0) = Inr DATA"
    by (auto split: sum.splits)
  from Cons.IH [OF rest Cons.prems(2)] show ?case
  proof
    assume "(key, r) \<in> set (pd_set acc k0 r0)"
    from pd_set_mem [OF this] rr show ?thesis by auto
  next
    assume "\<exists>row\<in>set rows. \<exists>k'. read_row COLS row = Inr (k', r)"
    then show ?thesis by auto
  qed
qed

lemma dict_digest_cong:
  assumes "distinct (map fst r1)" and "distinct (map fst r2)" and "map_of r1 = map_of r2"
  shows "dict_digest md5 r1 = dict_digest md5 r2"
  using sorted_items_unique [OF assms] by (simp add: dict_digest_def)

text \<open>
  C4, as the code has it. \<^verbatim>\<open>Retrieve_Source\<close> turns a text equal to \<^verbatim>\<open>none\<close> in any case
  into \<^verbatim>\<open>None\<close> in the field \<^verbatim>\<open>fos_nsf_abbrev\<close> and passes every other field on as it
  was read; the first loop of \<^verbatim>\<open>Store_Destination\<close> does it in every field of a
  destination record before it hashes. On either side, records that are equal after
  that side's normalization have the same fingerprint.
\<close>

theorem none_normalization:
  "(Retrieve_Source (QueryRows COLS rows) lg = (Inr DATA, lg') \<longrightarrow>
      (\<forall>(key, r)\<in>set DATA. \<exists>row\<in>set rows. map_of r = source_view (rd_dict (zip COLS row))))
   \<and> (read_row COLS row1 = Inr (k1, r1) \<and> read_row COLS row2 = Inr (k2, r2) \<and>
        source_view (rd_dict (zip COLS row1)) = source_view (rd_dict (zip COLS row2)) \<longrightarrow>
        dict_digest md5 r1 = dict_digest md5 r2)
   \<and> map_of (normalize_none (model_to_dict item)) = dest_view (model_to_dict item)
   \<and> (pk_unique t \<longrightarrow>
        pd_get (snd (load_cur md5 t ([], []))) k =
          map_option (\<lambda>item. dict_digest md5 (normalize_none (model_to_dict item))) (db_find t k))
   \<and> (dest_view (model_to_dict a) = dest_view (model_to_dict b) \<longrightarrow> cur_digest md5 a = cur_digest md5 b)"
proof -
  have 1: "\<forall>(key, r)\<in>set DATA. \<exists>row\<in>set rows. map_of r = source_view (rd_dict (zip COLS row))"
    if run: "Retrieve_Source (QueryRows COLS rows) lg = (Inr DATA, lg')"
  proof clarify
    fix key r
    assume m: "(key, r) \<in> set DATA"
    from run have "retrieve_rows COLS rows [] = Inr DATA"
      by (simp add: Retrieve_Source_def)
    from retrieve_rows_entries [OF this m] obtain row k' where "row \<in> set rows"
      and "read_row COLS row = Inr (k', r)"
      by auto
    with read_row_view show "\<exists>row\<in>set rows. map_of r = source_view (rd_dict (zip COLS row))"
      by blast
  qed
  have 2: "dict_digest md5 r1 = dict_digest md5 r2"
    if "read_row COLS row1 = Inr (k1, r1)" and "read_row COLS row2 = Inr (k2, r2)"
      and "source_view (rd_dict (zip COLS row1)) = source_view (rd_dict (zip COLS row2))"
    using that read_row_view [of COLS row1 k1 r1] read_row_view [of COLS row2 k2 r2]
    by (intro dict_digest_cong) simp_all
  have 3: "map_of (normalize_none (model_to_dict item)) = dest_view (model_to_dict item)"
    by (simp add: fun_eq_iff map_of_normalize_none)
  have 4: "pd_get (snd (load_cur md5 t ([], []))) k =
          map_option (\<lambda>item. dict_digest md5 (normalize_none (model_to_dict item))) (db_find t k)"
    if "pk_unique t"
    using load_cur_digest [OF that, of md5 "[]" "[]" k]
    by (simp add: cur_digest_def split: option.splits)
  have 5: "cur_digest md5 a = cur_digest md5 b"
    if "dest_view (model_to_dict a) = dest_view (model_to_dict b)"
    unfolding cur_digest_def
    by (rule dict_digest_cong)
       (simp_all add: fst_normalize_none distinct_model_to_dict fun_eq_iff map_of_normalize_none that)
  from 1 2 3 4 5 show ?thesis by blast
qed

text \<open>
  C4 as it is written does not hold: \<^verbatim>\<open>Retrieve_Source\<close> passes on a description that
  is the text \<^verbatim>\<open>None\<close>, the loop of \<^verbatim>\<open>Store_Destination\<close> over the same fields makes it
  \<^verbatim>\<open>None\<close>, and the two do not have the same canonical text.
\<close>

theorem none_normalization_counterexample:
  "Retrieve_Source (QueryRows fos_fields [[PInt 1, PNone, PStr ''None'', PInt 10, PStr ''None'', PStr ''1'']]) []
     = (Inr [(PInt 1, [(''field_of_science_id'', PInt 1), (''parent_field_of_science_id'', PNone),
                       (''field_of_science_desc'', PStr ''None''), (''fos_nsf_id'', PInt 10),
                       (''fos_nsf_abbrev'', PNone), (''is_active'', PStr ''1'')])], [])
   \<and> is_none_str (PStr ''None'')
   \<and> normalize_none [(''field_of_science_id'', PInt 1), (''parent_field_of_science_id'', PNone),
                       (''field_of_science_desc'', PStr ''None''), (''fos_nsf_id'', PInt 10),
                       (''fos_nsf_abbrev'', PNone), (''is_active'', PStr ''1'')]
     = [(''field_of_science_id'', PInt 1), (''parent_field_of_science_id'', PNone),
                       (''field_of_science_desc'', PNone), (''fos_nsf_id'', PInt 10),
                       (''fos_nsf_abbrev'', PNone), (''is_active'', PStr ''1'')]
   \<and> dict_digest id [(''field_of_science_id'', PInt 1), (''parent_field_of_science_id'', PNone),
                       (''field_of_science_desc'', PStr ''None''), (''fos_nsf_id'', PInt 10),
                       (''fos_nsf_abbrev'', PNone), (''is_active'', PStr ''1'')]
     \<noteq> dict_digest id [(''field_of_science_id'', PInt 1), (''parent_field_of_science_id'', PNone),
                       (''field_of_science_desc'', PNone), (''fos_nsf_id'', PInt 10),
                       (''fos_nsf_abbrev'', PNone), (''is_active'', PStr ''1'')]"
  by code_simp

theorem none_normalization_witness:
  "Retrieve_Source (QueryRows fos_fields [[PInt 4, PNone, PStr ''Maths'', PInt 40, PStr ''NoNe'', PStr ''1'']]) []
     = (Inr [(PInt 4, [(''field_of_science_id'', PInt 4), (''parent_field_of_science_id'', PNone),
                       (''field_of_science_desc'', PStr ''Maths''), (''fos_nsf_id'', PInt 40),
                       (''fos_nsf_abbrev'', PNone), (''is_active'', PStr ''1'')])], [])
   \<and> map_of [(''field_of_science_id'', PInt 4), (''parent_field_of_science_id'', PNone),
                       (''field_of_science_desc'', PStr ''Maths''), (''fos_nsf_id'', PInt 40),
                       (''fos_nsf_abbrev'', PNone), (''is_active'', PStr ''1'')]
     = source_view (rd_dict (zip fos_fields [PInt 4, PNone, PStr ''Maths'', PInt 40, PStr ''NoNe'', PStr ''1'']))
   \<and> pd_get (snd (load_cur id [stored_record 4 ''Maths''] ([], []))) (PInt 4)
     = Some (dict_digest id (normalize_none (model_to_dict (stored_record 4 ''Maths''))))
   \<and> cur_digest id (stored_record 4 ''Maths'')
     = cur_digest id ((stored_record 4 ''Maths'')\<lparr>fos_nsf_abbrev := PNone, parent_field_of_science_id := PStr ''NONE''\<rparr>)"
proof -
  let ?row = "[PInt 4, PNone, PStr ''Maths'', PInt 40, PStr ''NoNe'', PStr ''1'']"
  let ?rec = "[(''field_of_science_id'', PInt 4), (''parent_field_of_science_id'', PNone),
                       (''field_of_science_desc'', PStr ''Maths''), (''fos_nsf_id'', PInt 40),
                       (''fos_nsf_abbrev'', PNone), (''is_active'', PStr ''1'')]"
  let ?a = "stored_record 4 ''Maths''"
  let ?b = "(stored_record 4 ''Maths'')\<lparr>fos_nsf_abbrev := PNone, parent_field_of_science_id := PStr ''NONE''\<rparr>"
  have run: "Retrieve_Source (QueryRows fos_fields [?row]) [] = (Inr [(PInt 4, ?rec)], [])"
    by code_simp
  have pk: "pk_unique [stored_record 4 ''Maths'']" by simp
  have f: "db_find [stored_record 4 ''Maths''] (PInt 4) = Some (stored_record 4 ''Maths'')"
    by (simp add: stored_record_def)
  have n1: "none_to_null (PStr ''None'') = PNone" by code_simp
  have n2: "none_to_null (PStr ''NONE'') = PNone" by code_simp
  have n3: "none_to_null (PStr ''Maths'') = PStr ''Maths''" by code_simp
  have n4: "none_to_null (PStr ''1'') = PStr ''1''" by code_simp
  have n5: "none_to_null PNone = PNone" "none_to_null (PInt 4) = PInt 4" "none_to_null (PInt 104) = PInt 104"
    by (simp_all add: none_to_null_def)
  have dv: "dest_view (model_to_dict ?a) = dest_view (model_to_dict ?b)"
    by (rule ext) (simp add: dest_view_def model_to_dict_def stored_record_def n1 n2 n3 n4 n5)
  note inst = none_normalization [of fos_fields "[?row]" "[]" "[(PInt 4, ?rec)]" "[]" ?row "PInt 4" ?rec ?row "PInt 4" ?rec id
      ?a "[stored_record 4 ''Maths'']" "PInt 4" ?a ?b]
  from inst run have 1: "map_of ?rec = source_view (rd_dict (zip fos_fields ?row))" by simp
  from inst pk f have 2: "pd_get (snd (load_cur id [stored_record 4 ''Maths''] ([], []))) (PInt 4)
     = Some (dict_digest id (normalize_none (model_to_dict (stored_record 4 ''Maths''))))" by simp
  from inst dv have 3: "cur_digest id ?a = cur_digest id ?b" by blast
  from run 1 2 3 show ?thesis by blast
qed

section \<open>A run in which no write is rejected\<close>

lemma upsert_args_id: "upsert_args nitem = Inr r \<Longrightarrow> field_of_science_id r = upsert_id nitem"
  using upsert_args_Inr [of nitem r] by (auto simp: upsert_id_def)

lemma store_new_done:
  "store_new be md5 cd items st = (None, st') \<Longrightarrow>
   MySkipStat st' = MySkipStat st + int (length (filter (\<lambda>(k, n). Some (dict_digest md5 n) = pd_get cd k) items))
   \<and> MyUpdateStat st' = MyUpdateStat st + int (length (filter (\<lambda>(k, n). Some (dict_digest md5 n) \<noteq> pd_get cd k) items))
   \<and> new_ops st st' = map (\<lambda>(k, n). UpsertOk (upsert_id n)) (filter (\<lambda>(k, n). Some (dict_digest md5 n) \<noteq> pd_get cd k) items)"
proof (induction items arbitrary: st)
  case Nil
  then show ?case by (simp add: new_ops_def)
next
  case (Cons a items)
  obtain k0 n0 where a: "a = (k0, n0)" by (cases a)
  from Cons.prems [unfolded a] show ?case
  proof (cases rule: store_new_Cons_cases)
    case skip
    from Cons.IH [OF skip(2)] skip(1) show ?thesis
      by (simp add: a new_ops_def)
  next
    case (keyerror x)
    then show ?thesis by simp
  next
    case (written r)
    from store_new_no_delete [OF written(4)] obtain ops where
      j: "journal st' = journal (upsert_step r st) @ ops" by blast
    then have no: "new_ops st st' = UpsertOk (field_of_science_id r) # new_ops (upsert_step r st) st'"
      by (simp add: new_ops_def upsert_step_def)
    from Cons.IH [OF written(4)] written(1) show ?thesis
      by (simp add: a no upsert_args_id [OF written(2)] upsert_step_def)
  next
    case (rejected r e)
    then show ?thesis by simp
  qed
qed

lemma store_new_find:
  "store_new be md5 cd items st = (None, st') \<Longrightarrow> pd_distinct items \<Longrightarrow>
   (\<forall>(k, nitem)\<in>set items. \<forall>r. upsert_args nitem = Inr r \<longrightarrow> py_eq (field_of_science_id r) k) \<Longrightarrow>
   (k, nitem) \<in> set items \<Longrightarrow>
   (Some (dict_digest md5 nitem) = pd_get cd k \<longrightarrow> db_find (table st') k = db_find (table st) k) \<and>
   (Some (dict_digest md5 nitem) \<noteq> pd_get cd k \<longrightarrow> (\<exists>r. upsert_args nitem = Inr r \<and> db_find (table st') k = Some r))"
proof (induction items arbitrary: st)
  case Nil
  then show ?case by simp
next
  case (Cons a items)
  obtain k0 n0 where a: "a = (k0, n0)" by (cases a)
  from Cons.prems(2) have d: "pd_distinct items" and fresh: "py_key k0 \<notin> pd_keys items"
    by (simp_all add: a)
  from Cons.prems(3) have rest: "\<forall>(k, nitem)\<in>set items. \<forall>r. upsert_args nitem = Inr r \<longrightarrow> py_eq (field_of_science_id r) k"
    by simp
  have other: "\<forall>(k', nitem)\<in>set items. \<forall>r. upsert_args nitem = Inr r \<longrightarrow> \<not> py_eq (field_of_science_id r) k0"
  proof clarify
    fix k' n' r'
    assume m: "(k', n') \<in> set items" and u: "upsert_args n' = Inr r'" and eq: "py_eq (field_of_science_id r') k0"
    from rest m u have "py_eq (field_of_science_id r') k'" by blast
    with eq have "py_key k0 = py_key k'" by (simp add: py_eq_def)
    with m fresh show False by (force simp: pd_keys_def)
  qed
  have here: "k = k0 \<and> nitem = n0" if "py_key k = py_key k0"
  proof -
    from that fresh have "py_key k \<notin> pd_keys items" by simp
    with Cons.prems(4) show ?thesis by (force simp: a pd_keys_def)
  qed
  have there: "(k, nitem) \<in> set items" if "py_key k \<noteq> py_key k0"
    using that Cons.prems(4) by (auto simp: a)
  from Cons.prems(1) [unfolded a] show ?case
  proof (cases rule: store_new_Cons_cases)
    case skip
    show ?thesis
    proof (cases "py_key k = py_key k0")
      case True
      from store_new_find_other [OF skip(2) other] here [OF True] skip(1) show ?thesis
        by simp
    next
      case False
      from Cons.IH [OF skip(2) d rest there [OF False]] show ?thesis by simp
    qed
  next
    case (keyerror x)
    then show ?thesis by simp
  next
    case (written r)
    from Cons.prems(3) written(2) have rk: "py_eq (field_of_science_id r) k0"
      by (simp add: a)
    show ?thesis
    proof (cases "py_key k = py_key k0")
      case True
      from store_new_find_other [OF written(4) other]
      have "db_find (table st') k0 = db_find (table (upsert_step r st)) k0" .
      also have "\<dots> = Some r"
        using rk by (simp add: upsert_step_def db_find_upsert)
      finally show ?thesis using here [OF True] written(1,2) by simp
    next
      case False
      with rk have "\<not> py_eq (field_of_science_id r) k" by (simp add: py_eq_def)
      then have "db_find (table (upsert_step r st)) k = db_find (table st) k"
        by (simp add: upsert_step_def db_find_upsert)
      with Cons.IH [OF written(4) d rest there [OF False]] show ?thesis by simp
    qed
  next
    case (rejected r e)
    then show ?thesis by simp
  qed
qed

lemma delete_old_done:
  "\<forall>op\<in>set (new_ops st (delete_old be ni cur st)). \<not> delete_failed op \<Longrightarrow>
   table (delete_old be ni cur st)
     = filter (\<lambda>x. \<not> (\<exists>(k, item)\<in>set cur. pd_get ni k = None \<and> py_eq (field_of_science_id x) (field_of_science_id item))) (table st)
   \<and> MyDeleteStat (delete_old be ni cur st)
     = MyDeleteStat st + int (length (filter (\<lambda>(k, item). pd_get ni k = None) cur))
   \<and> new_ops st (delete_old be ni cur st)
     = map (\<lambda>(k, item). DeleteOk (field_of_science_id item)) (filter (\<lambda>(k, item). pd_get ni k = None) cur)"
proof (induction cur arbitrary: st)
  case Nil
  show ?case by (simp add: new_ops_def)
next
  case (Cons a cur)
  obtain k item where a: "a = (k, item)" by (cases a)
  consider (kept) "pd_get ni k \<noteq> None"
      and "delete_old be ni ((k, item) # cur) st = delete_old be ni cur st"
  | (deleted) "pd_get ni k = None" and "delete_error be (table st) item = None"
      and "delete_old be ni ((k, item) # cur) st = delete_old be ni cur (delete_step item st)"
  | (rejected) e where "pd_get ni k = None" and "delete_error be (table st) item = Some e"
      and "delete_old be ni ((k, item) # cur) st = delete_old be ni cur (delete_reject_step item e st)"
    by (rule delete_old_Cons_cases [where ni=ni and k=k and be=be and st=st and item=item and rest=cur])
  then show ?case
  proof cases
    case kept
    from Cons.prems have "\<forall>op\<in>set (new_ops st (delete_old be ni cur st)). \<not> delete_failed op"
      unfolding a kept(2) .
    from Cons.IH [OF this] kept(1) show ?thesis
      unfolding a kept(2) by auto
  next
    case deleted
    let ?st1 = "delete_step item st"
    let ?st' = "delete_old be ni cur ?st1"
    from delete_old_shape [of be ni cur ?st1] obtain ops where
      j: "journal ?st' = journal ?st1 @ ops" by blast
    then have no: "new_ops st ?st' = DeleteOk (field_of_science_id item) # new_ops ?st1 ?st'"
      by (simp add: new_ops_def delete_step_def)
    from Cons.prems have "\<forall>op\<in>set (new_ops st ?st'). \<not> delete_failed op"
      unfolding a deleted(3) .
    with no have "\<forall>op\<in>set (new_ops ?st1 ?st'). \<not> delete_failed op" by simp
    from Cons.IH [OF this] have t: "table ?st'
        = filter (\<lambda>x. \<not> (\<exists>(k, item)\<in>set cur. pd_get ni k = None \<and> py_eq (field_of_science_id x) (field_of_science_id item))) (table ?st1)"
      and c: "MyDeleteStat ?st' = MyDeleteStat ?st1 + int (length (filter (\<lambda>(k, item). pd_get ni k = None) cur))"
      and o: "new_ops ?st1 ?st' = map (\<lambda>(k, item). DeleteOk (field_of_science_id item)) (filter (\<lambda>(k, item). pd_get ni k = None) cur)"
      by simp_all
    have t1: "table ?st1 = filter (\<lambda>x. \<not> py_eq (field_of_science_id x) (field_of_science_id item)) (table st)"
      by (simp add: delete_step_def db_delete_def)
    have "table ?st' = filter (\<lambda>x. \<not> (\<exists>(k, item)\<in>set (a # cur). pd_get ni k = None \<and> py_eq (field_of_science_id x) (field_of_science_id item))) (table st)"
      unfolding t t1 filter_filter using deleted(1)
      by (intro filter_cong refl) (auto simp: a)
    moreover have "MyDeleteStat ?st' = MyDeleteStat st + int (length (filter (\<lambda>(k, item). pd_get ni k = None) (a # cur)))"
      using c deleted(1) by (simp add: a delete_step_def)
    moreover have "new_ops st ?st' = map (\<lambda>(k, item). DeleteOk (field_of_science_id item)) (filter (\<lambda>(k, item). pd_get ni k = None) (a # cur))"
      using o no deleted(1) by (simp add: a)
    ultimately show ?thesis unfolding a deleted(3) by (simp add: a)
  next
    case (rejected e)
    let ?st1 = "delete_reject_step item e st"
    let ?st' = "delete_old be ni cur ?st1"
    from delete_old_shape [of be ni cur ?st1] obtain ops where
      j: "journal ?st' = journal ?st1 @ ops" by blast
    then have no: "new_ops st ?st' = DeleteFailed (field_of_science_id item) e # new_ops ?st1 ?st'"
      by (simp add: new_ops_def delete_reject_step_def)
    from Cons.prems have "\<forall>op\<in>set (new_ops st ?st'). \<not> delete_failed op"
      unfolding a rejected(3) .
    with no show ?thesis by simp
  qed
qed

lemma load_cur_skip:
  assumes "pk_unique t"
  shows "(Some (dict_digest md5 n) = pd_get (snd (load_cur md5 t ([], []))) k) = already_stored md5 t (k, n)"
  using load_cur_digest [OF assms, of md5 "[]" "[]" k]
  by (auto simp: already_stored_def split: option.splits)

lemma snapshot_wf_upsert_id:
  "snapshot_wf items \<Longrightarrow> (k, nitem) \<in> set items \<Longrightarrow> py_eq (upsert_id nitem) k"
  by (auto simp: snapshot_wf_def upsert_id_def split: option.splits)

lemma snapshot_wf_same:
  assumes "snapshot_wf items" and "(k, n) \<in> set items" and "(k', n') \<in> set items" and "py_key k = py_key k'"
  shows "k = k' \<and> n = n'"
proof -
  from assms(1) have "distinct (map (py_key \<circ> fst) items)"
    by (simp add: snapshot_wf_def pd_distinct_def)
  then have "inj_on (py_key \<circ> fst) (set items)"
    by (simp add: distinct_map)
  from inj_onD [OF this, of "(k, n)" "(k', n')"] assms(2,3,4) show ?thesis by simp
qed

lemma reconcile_core:
  assumes run: "Store_Destination be md5 new_items st = (Returned (True, m), st')"
    and nofail: "\<forall>op\<in>set (new_ops st st'). \<not> delete_failed op"
    and wf: "snapshot_wf new_items" and pk: "pk_unique (table st)"
  shows "(\<forall>(k, nitem)\<in>set new_items.
            (already_stored md5 (table st) (k, nitem) \<longrightarrow>
               db_find (table st') k = db_find (table st) k \<and> (\<forall>op\<in>set (new_ops st st'). \<not> upserts_id k op)) \<and>
            (\<not> already_stored md5 (table st) (k, nitem) \<longrightarrow>
               (\<exists>r. upsert_args nitem = Inr r \<and> db_find (table st') k = Some r) \<and>
               (\<exists>op\<in>set (new_ops st st'). upserts_id k op)))
       \<and> (\<forall>x\<in>set (table st). py_key (field_of_science_id x) \<notin> pd_keys new_items \<longrightarrow>
            db_find (table st') (field_of_science_id x) = None)
       \<and> MySkipStat st' = MySkipStat st + int (length (filter (already_stored md5 (table st)) new_items))
       \<and> MyUpdateStat st' = MyUpdateStat st + int (length (filter (\<lambda>e. \<not> already_stored md5 (table st) e) new_items))
       \<and> MyDeleteStat st' = MyDeleteStat st
            + int (length (filter (\<lambda>x. py_key (field_of_science_id x) \<notin> pd_keys new_items) (table st)))
       \<and> new_ops st st' =
            map (\<lambda>(k, n). UpsertOk (upsert_id n)) (filter (\<lambda>e. \<not> already_stored md5 (table st) e) new_items)
            @ map (\<lambda>x. DeleteOk (field_of_science_id x))
                (filter (\<lambda>x. py_key (field_of_science_id x) \<notin> pd_keys new_items) (table st))"
  using run
proof (cases rule: Store_Destination_cases)
  case early
  from store_new_shape [OF early] show ?thesis by auto
next
  case (full st1)
  let ?cd = "snd (load_cur md5 (table st) ([], []))"
  let ?cur = "fst (load_cur md5 (table st) ([], []))"
  let ?gone = "\<lambda>x. py_key (field_of_science_id x) \<notin> pd_keys new_items"
  have skip_eq: "(\<lambda>(k, n). Some (dict_digest md5 n) = pd_get ?cd k) = already_stored md5 (table st)"
    by (rule ext) (simp add: case_prod_unfold load_cur_skip [OF pk] del: pd_get.simps)
  have upd_eq: "(\<lambda>(k, n). Some (dict_digest md5 n) \<noteq> pd_get ?cd k) = (\<lambda>e. \<not> already_stored md5 (table st) e)"
    by (rule ext) (simp add: case_prod_unfold load_cur_skip [OF pk] del: pd_get.simps)
  have cur: "?cur = map (\<lambda>x. (field_of_science_id x, x)) (table st)"
    using load_cur_cur [OF pk, of "[]" md5 "[]"] by simp
  from wf have d: "pd_distinct new_items" by (simp add: snapshot_wf_def)
  note ids = snapshot_wf_ids [OF wf]
  from store_new_done [OF full(1)] have
    s1: "MySkipStat st1 = MySkipStat st + int (length (filter (already_stored md5 (table st)) new_items))"
    and u1: "MyUpdateStat st1 = MyUpdateStat st + int (length (filter (\<lambda>e. \<not> already_stored md5 (table st) e) new_items))"
    and o1: "new_ops st st1 = map (\<lambda>(k, n). UpsertOk (upsert_id n)) (filter (\<lambda>e. \<not> already_stored md5 (table st) e) new_items)"
    by (simp_all add: skip_eq upd_eq)
  from store_new_no_delete [OF full(1)] obtain ops1 where j1: "journal st1 = journal st @ ops1"
    by blast
  from delete_old_shape [of be new_items ?cur st1] full(3)
  obtain ops2 where j2: "journal st' = journal st1 @ ops2"
    by auto
  from j1 j2 have split: "new_ops st st' = new_ops st st1 @ new_ops st1 st'"
    by (simp add: new_ops_def)
  with nofail have "\<forall>op\<in>set (new_ops st1 (delete_old be new_items ?cur st1)). \<not> delete_failed op"
    by (simp add: full(3))
  from delete_old_done [OF this] have
    t2: "table st' = filter (\<lambda>x. \<not> (\<exists>(k, item)\<in>set ?cur. pd_get new_items k = None \<and>
            py_eq (field_of_science_id x) (field_of_science_id item))) (table st1)"
    and d2: "MyDeleteStat st' = MyDeleteStat st1 + int (length (filter (\<lambda>(k, item). pd_get new_items k = None) ?cur))"
    and o2: "new_ops st1 st' = map (\<lambda>(k, item). DeleteOk (field_of_science_id item)) (filter (\<lambda>(k, item). pd_get new_items k = None) ?cur)"
    by (simp_all add: full(3))
  have fl: "filter (\<lambda>(k, item). pd_get new_items k = None) ?cur
      = map (\<lambda>x. (field_of_science_id x, x)) (filter ?gone (table st))"
    by (simp add: cur filter_map comp_def pd_get_None_iff)
  have ops: "new_ops st st' =
            map (\<lambda>(k, n). UpsertOk (upsert_id n)) (filter (\<lambda>e. \<not> already_stored md5 (table st) e) new_items)
            @ map (\<lambda>x. DeleteOk (field_of_science_id x)) (filter ?gone (table st))"
    by (simp add: split o1 o2 fl comp_def)
  have cnt_d: "MyDeleteStat st' = MyDeleteStat st + int (length (filter ?gone (table st)))"
    using d2 store_new_delete_stat [OF full(1)] by (simp add: fl)
  have cnt_s: "MySkipStat st' = MySkipStat st + int (length (filter (already_stored md5 (table st)) new_items))"
    using s1 delete_old_stats [of be new_items ?cur st1] by (simp add: full(3))
  have cnt_u: "MyUpdateStat st' = MyUpdateStat st + int (length (filter (\<lambda>e. \<not> already_stored md5 (table st) e) new_items))"
    using u1 delete_old_stats [of be new_items ?cur st1] by (simp add: full(3))
  have ent: "\<forall>(k', item)\<in>set ?cur. py_eq (field_of_science_id item) k'"
    by (rule load_cur_entries) simp
  have items: "(already_stored md5 (table st) (k, nitem) \<longrightarrow>
               db_find (table st') k = db_find (table st) k \<and> (\<forall>op\<in>set (new_ops st st'). \<not> upserts_id k op)) \<and>
            (\<not> already_stored md5 (table st) (k, nitem) \<longrightarrow>
               (\<exists>r. upsert_args nitem = Inr r \<and> db_find (table st') k = Some r) \<and>
               (\<exists>op\<in>set (new_ops st st'). upserts_id k op))"
    if m: "(k, nitem) \<in> set new_items" for k nitem
  proof -
    from m have "py_key k \<in> pd_keys new_items" by (force simp: pd_keys_def)
    then have "pd_get new_items k \<noteq> None" by (simp add: pd_get_None_iff)
    then have keep: "db_find (table st') k = db_find (table st1) k"
      unfolding full(3) using ent by (rule delete_old_find_kept)
    from store_new_find [OF full(1) d ids m] have
      f1: "already_stored md5 (table st) (k, nitem) \<longrightarrow> db_find (table st1) k = db_find (table st) k"
      and f2: "\<not> already_stored md5 (table st) (k, nitem) \<longrightarrow> (\<exists>r. upsert_args nitem = Inr r \<and> db_find (table st1) k = Some r)"
      by (simp_all add: load_cur_skip [OF pk] del: pd_get.simps)
    have no_write: "\<not> upserts_id k op" if st: "already_stored md5 (table st) (k, nitem)"
      and op: "op \<in> set (new_ops st st')" for op
    proof
      assume u: "upserts_id k op"
      from op u ops obtain k' n' where m': "(k', n') \<in> set new_items"
        and ns: "\<not> already_stored md5 (table st) (k', n')" and o: "op = UpsertOk (upsert_id n')"
        by auto
      from u o have "py_eq (upsert_id n') k" by simp
      with snapshot_wf_upsert_id [OF wf m'] have "py_key k = py_key k'"
        by (simp add: py_eq_def)
      from snapshot_wf_same [OF wf m m' this] st ns show False by simp
    qed
    have written: "\<exists>op\<in>set (new_ops st st'). upserts_id k op" if ns: "\<not> already_stored md5 (table st) (k, nitem)"
    proof -
      from m ns have "UpsertOk (upsert_id nitem) \<in> set (new_ops st st')"
        by (force simp: ops)
      moreover have "upserts_id k (UpsertOk (upsert_id nitem))"
        using snapshot_wf_upsert_id [OF wf m] by simp
      ultimately show ?thesis by blast
    qed
    from keep f1 f2 no_write written show ?thesis by simp
  qed
  have gone: "db_find (table st') (field_of_science_id x) = None"
    if x: "x \<in> set (table st)" and g: "?gone x" for x
  proof -
    have "py_key (field_of_science_id x) \<notin> db_ids (table st')"
    proof
      assume "py_key (field_of_science_id x) \<in> db_ids (table st')"
      then obtain y where y: "y \<in> set (table st')" and yx: "py_key (field_of_science_id y) = py_key (field_of_science_id x)"
        by (auto simp: db_ids_def)
      from y t2 have "\<not> (\<exists>(k, item)\<in>set ?cur. pd_get new_items k = None \<and>
            py_eq (field_of_science_id y) (field_of_science_id item))"
        by simp
      moreover from x have "(field_of_science_id x, x) \<in> set ?cur" by (simp add: cur)
      moreover from g have "pd_get new_items (field_of_science_id x) = None" by (simp add: pd_get_None_iff)
      ultimately show False using yx by (auto simp: py_eq_def)
    qed
    then show ?thesis by (simp add: db_find_None_iff)
  qed
  from items gone cnt_s cnt_u cnt_d ops show ?thesis by blast
qed

text \<open>
  C3, as the code has it. On a well-formed snapshot and a destination with one record
  for an id, when the run returns \<^verbatim>\<open>True\<close> and no delete was rejected: an item is skipped,
  without a write, exactly when the destination held its id with an equal fingerprint;
  every other item is upserted, the record of its id then being the one
  \<^verbatim>\<open>update_or_create\<close> was given; every record whose id is not in the snapshot is gone;
  the three counters count these; and the journal is the upserts, in the order of the
  snapshot, followed by the deletes.
\<close>

theorem reconcile_without_rejects:
  assumes run: "Store_Destination be md5 new_items st = (Returned (True, m), st')"
    and nofail: "\<forall>op\<in>set (new_ops st st'). \<not> delete_failed op"
    and wf: "snapshot_wf new_items" and pk: "pk_unique (table st)"
  shows "(\<forall>(k, nitem)\<in>set new_items.
            (already_stored md5 (table st) (k, nitem) \<longrightarrow>
               db_find (table st') k = db_find (table st) k \<and> (\<forall>op\<in>set (new_ops st st'). \<not> upserts_id k op)) \<and>
            (\<not> already_stored md5 (table st) (k, nitem) \<longrightarrow>
               (\<exists>r. upsert_args nitem = Inr r \<and> db_find (table st') k = Some r) \<and>
               (\<exists>op\<in>set (new_ops st st'). upserts_id k op)))
       \<and> (\<forall>x\<in>set (table st). py_key (field_of_science_id x) \<notin> pd_keys new_items \<longrightarrow>
            db_find (table st') (field_of_science_id x) = None)
       \<and> MySkipStat st' = MySkipStat st + int (length (filter (already_stored md5 (table st)) new_items))
       \<and> MyUpdateStat st' = MyUpdateStat st + int (length (filter (\<lambda>e. \<not> already_stored md5 (table st) e) new_items))
       \<and> MyDeleteStat st' = MyDeleteStat st
            + int (length (filter (\<lambda>x. py_key (field_of_science_id x) \<notin> pd_keys new_items) (table st)))
       \<and> new_ops st st' =
            map (\<lambda>(k, n). UpsertOk (upsert_id n)) (filter (\<lambda>e. \<not> already_stored md5 (table st) e) new_items)
            @ map (\<lambda>x. DeleteOk (field_of_science_id x))
                (filter (\<lambda>x. py_key (field_of_science_id x) \<notin> pd_keys new_items) (table st))"
  using assms by (rule reconcile_core)

text \<open>
  C3 as it is written does not hold. When the destination rejects the delete, the record
  whose id is not in the snapshot stays and is not counted, and the run returns \<^verbatim>\<open>True\<close>;
  when it rejects the first upsert, the second item is neither skipped nor upserted and
  nothing is deleted; and the record written for an item has the text \<^verbatim>\<open>'None'\<close> where
  the item has \<^verbatim>\<open>None\<close>.
\<close>

theorem reconcile_counterexample:
  "Store_Destination reject_deletes id [(PInt 1, source_record 1 ''Physics'')]
      (start_state [stored_record 9 ''Astrology''])
     = (Returned (True, []),
        \<lparr> table = [stored_record 9 ''Astrology'', stored_record 1 ''Physics''],
          journal = [UpsertOk (PInt 1), DeleteFailed (PInt 9) (IntegrityError ''still referenced'')],
          log = [LogDebug ''FOS save field_of_science_id=1'',
                 LogError ''IntegrityError deleting ID=9: still referenced''],
          MyUpdateStat = 1, MyDeleteStat = 0, MySkipStat = 0 \<rparr>)
   \<and> Store_Destination (reject_upsert (PInt 1)) id
        [(PInt 1, source_record 1 ''Physics''), (PInt 2, source_record 2 ''Chemistry'')]
        (start_state [stored_record 9 ''Astrology''])
     = (Returned (False, ''DataError saving ID=1: value too long''),
        \<lparr> table = [stored_record 9 ''Astrology''],
          journal = [UpsertFailed (PInt 1) (DataError ''value too long'')],
          log = [LogError ''DataError saving ID=1: value too long''],
          MyUpdateStat = 0, MyDeleteStat = 0, MySkipStat = 0 \<rparr>)
   \<and> map_of (source_record 1 ''Physics'') ''fos_nsf_abbrev'' = Some PNone
   \<and> fos_nsf_abbrev (stored_record 1 ''Physics'') = PStr ''None''"
  by code_simp

theorem reconcile_without_rejects_witness:
  "Store_Destination accept_all id
      [(PInt 1, source_record 1 ''Physics''), (PInt 2, source_record 2 ''Chemistry'')]
      (start_state [stored_record 1 ''Physics'', stored_record 9 ''Astrology''])
     = (Returned (True, []),
        \<lparr> table = [stored_record 1 ''Physics'', stored_record 2 ''Chemistry''],
          journal = [UpsertOk (PInt 2), DeleteOk (PInt 9)],
          log = [LogDebug ''FOS save field_of_science_id=2'', LogInfo ''FOS delete field_of_science_id=None''],
          MyUpdateStat = 1, MyDeleteStat = 1, MySkipStat = 1 \<rparr>)
   \<and> length (filter (already_stored id [stored_record 1 ''Physics'', stored_record 9 ''Astrology''])
        [(PInt 1, source_record 1 ''Physics''), (PInt 2, source_record 2 ''Chemistry'')]) = 1
   \<and> db_find [stored_record 1 ''Physics'', stored_record 2 ''Chemistry''] (PInt 9) = None"
proof -
  let ?src = "[(PInt 1, source_record 1 ''Physics''), (PInt 2, source_record 2 ''Chemistry'')]"
  let ?t = "[stored_record 1 ''Physics'', stored_record 9 ''Astrology'']"
  let ?st' = "\<lparr> table = [stored_record 1 ''Physics'', stored_record 2 ''Chemistry''],
          journal = [UpsertOk (PInt 2), DeleteOk (PInt 9)],
          log = [LogDebug ''FOS save field_of_science_id=2'', LogInfo ''FOS delete field_of_science_id=None''],
          MyUpdateStat = 1, MyDeleteStat = 1, MySkipStat = 1 \<rparr>"
  have e: "Store_Destination accept_all id ?src (start_state ?t) = (Returned (True, []), ?st')"
    by code_simp
  have nf: "\<forall>op\<in>set (new_ops (start_state ?t) ?st'). \<not> delete_failed op"
    by (simp add: new_ops_def start_state_def)
  have wf: "snapshot_wf ?src" by code_simp
  have pk: "pk_unique (table (start_state ?t))" by code_simp
  have x: "stored_record 9 ''Astrology'' \<in> set (table (start_state ?t))"
    by (simp add: start_state_def)
  have g: "py_key (field_of_science_id (stored_record 9 ''Astrology'')) \<notin> pd_keys ?src"
    by (simp add: stored_record_def)
  note r = reconcile_without_rejects [OF e nf wf pk]
  from r have "MySkipStat ?st' = MySkipStat (start_state ?t)
      + int (length (filter (already_stored id (table (start_state ?t))) ?src))"
    by blast
  then have 1: "length (filter (already_stored id ?t) ?src) = 1"
    by (simp add: start_state_def)
  from r x g have "db_find (table ?st') (field_of_science_id (stored_record 9 ''Astrology'')) = None"
    by blast
  then have 2: "db_find [stored_record 1 ''Physics'', stored_record 2 ''Chemistry''] (PInt 9) = None"
    by (simp add: stored_record_def)
  from e 1 2 show ?thesis by blast
qed

section \<open>After a successful run\<close>

lemma none_text: "is_none_str (PStr ''None'')"
  by code_simp

lemma str_roundtrip: "str_or_none v \<Longrightarrow> \<not> is_none_str v \<Longrightarrow> none_to_null (PStr (py_str v)) = v"
  using none_text by (cases v) (simp_all add: none_to_null_def)

lemma faithful_digest:
  assumes f: "str_faithful nitem" and u: "upsert_args nitem = Inr r"
  shows "cur_digest md5 r = dict_digest md5 nitem"
proof -
  from upsert_args_Inr [OF u] obtain fid parent desc nsf abbrev active where
    m1: "map_of nitem ''field_of_science_id'' = Some fid"
    and m2: "map_of nitem ''parent_field_of_science_id'' = Some parent"
    and m3: "map_of nitem ''field_of_science_desc'' = Some desc"
    and m4: "map_of nitem ''fos_nsf_id'' = Some nsf"
    and m5: "map_of nitem ''fos_nsf_abbrev'' = Some abbrev"
    and m6: "map_of nitem ''is_active'' = Some active"
    and r: "r = \<lparr> field_of_science_id = fid, parent_field_of_science_id = parent,
                 field_of_science_desc = PStr (py_str desc), fos_nsf_id = nsf,
                 fos_nsf_abbrev = PStr (py_str abbrev), is_active = PStr (py_str active) \<rparr>"
    by blast
  from f have d: "distinct (map fst nitem)" and ks: "fst ` set nitem = set fos_fields"
    and vs: "\<forall>(f, v)\<in>set nitem. \<not> is_none_str v \<and>
         (f \<in> {''field_of_science_desc'', ''fos_nsf_abbrev'', ''is_active''} \<longrightarrow> str_or_none v)"
    by (simp_all add: str_faithful_def)
  have val: "\<not> is_none_str v" if "map_of nitem f = Some v" for f v
    using vs map_of_SomeD [OF that] by auto
  have sv: "str_or_none v" if "map_of nitem f = Some v"
    and "f \<in> {''field_of_science_desc'', ''fos_nsf_abbrev'', ''is_active''}" for f v
    using vs map_of_SomeD [OF that(1)] that(2) by auto
  have n1: "none_to_null fid = fid" "none_to_null parent = parent" "none_to_null nsf = nsf"
    using val [OF m1] val [OF m2] val [OF m4] by (simp_all add: none_to_null_def)
  have n2: "none_to_null (PStr (py_str desc)) = desc" "none_to_null (PStr (py_str abbrev)) = abbrev"
    "none_to_null (PStr (py_str active)) = active"
    using str_roundtrip [OF sv [OF m3] val [OF m3]] str_roundtrip [OF sv [OF m5] val [OF m5]]
      str_roundtrip [OF sv [OF m6] val [OF m6]] by simp_all
  have out: "map_of nitem f = None" if "f \<notin> set fos_fields" for f
    using that ks by (simp add: map_of_eq_None_iff)
  have "map_of (normalize_none (model_to_dict r)) f = map_of nitem f" for f
  proof (cases "f \<in> set fos_fields")
    case True
    then show ?thesis
      using m1 m2 m3 m4 m5 m6 n1 n2
      by (auto simp: map_of_normalize_none dest_view_def model_to_dict_def r fos_fields_def)
  next
    case False
    with out [OF False] show ?thesis
      by (simp add: map_of_normalize_none dest_view_def model_to_dict_def fos_fields_def)
  qed
  then have "map_of (normalize_none (model_to_dict r)) = map_of nitem"
    by (simp add: fun_eq_iff)
  then show ?thesis
    unfolding cur_digest_def
    by (intro dict_digest_cong) (simp_all add: fst_normalize_none distinct_model_to_dict d)
qed

lemma store_new_ids_upper:
  "store_new be md5 cd items st = (res, st') \<Longrightarrow>
   (\<forall>(k, nitem)\<in>set items. \<forall>r. upsert_args nitem = Inr r \<longrightarrow> py_eq (field_of_science_id r) k) \<Longrightarrow>
   db_ids (table st') \<subseteq> db_ids (table st) \<union> pd_keys items"
proof (induction items arbitrary: st)
  case Nil
  then show ?case by auto
next
  case (Cons a items)
  obtain k0 n0 where a: "a = (k0, n0)" by (cases a)
  from Cons.prems(2) have rest: "\<forall>(k, nitem)\<in>set items. \<forall>r. upsert_args nitem = Inr r \<longrightarrow> py_eq (field_of_science_id r) k"
    by simp
  from Cons.prems(1) [unfolded a] show ?case
  proof (cases rule: store_new_Cons_cases)
    case skip
    from Cons.IH [OF skip(2) rest] show ?thesis by (auto simp: a)
  next
    case (keyerror x)
    then show ?thesis by auto
  next
    case (written r)
    from Cons.prems(2) written(2) have "py_key (field_of_science_id r) = py_key k0"
      by (simp add: a py_eq_def)
    with Cons.IH [OF written(4) rest] show ?thesis
      by (auto simp: a upsert_step_def db_ids_upsert)
  next
    case (rejected r e)
    then show ?thesis by auto
  qed
qed

lemma store_new_pk:
  "store_new be md5 cd items st = (res, st') \<Longrightarrow> pk_unique (table st) \<Longrightarrow> pk_unique (table st')"
proof (induction items arbitrary: st)
  case Nil
  then show ?case by auto
next
  case (Cons a items)
  obtain k0 n0 where a: "a = (k0, n0)" by (cases a)
  from Cons.prems(1) [unfolded a] show ?case
  proof (cases rule: store_new_Cons_cases)
    case skip
    from Cons.IH [OF skip(2)] Cons.prems(2) show ?thesis by simp
  next
    case (keyerror x)
    with Cons.prems(2) show ?thesis by simp
  next
    case (written r)
    from Cons.prems(2) have "pk_unique (table (upsert_step r st))"
      by (simp add: upsert_step_def pk_unique_upsert)
    from Cons.IH [OF written(4) this] show ?thesis .
  next
    case (rejected r e)
    with Cons.prems(2) show ?thesis by simp
  qed
qed

lemma delete_old_table:
  "set (table (delete_old be ni cur st)) \<subseteq> set (table st)
   \<and> (pk_unique (table st) \<longrightarrow> pk_unique (table (delete_old be ni cur st)))"
proof (induction cur arbitrary: st)
  case Nil
  show ?case by simp
next
  case (Cons a cur)
  obtain k item where a: "a = (k, item)" by (cases a)
  consider (kept) "pd_get ni k \<noteq> None"
      and "delete_old be ni ((k, item) # cur) st = delete_old be ni cur st"
  | (deleted) "pd_get ni k = None" and "delete_error be (table st) item = None"
      and "delete_old be ni ((k, item) # cur) st = delete_old be ni cur (delete_step item st)"
  | (rejected) e where "pd_get ni k = None" and "delete_error be (table st) item = Some e"
      and "delete_old be ni ((k, item) # cur) st = delete_old be ni cur (delete_reject_step item e st)"
    by (rule delete_old_Cons_cases [where ni=ni and k=k and be=be and st=st and item=item and rest=cur])
  then show ?case
  proof cases
    case kept
    from Cons.IH [of st] show ?thesis unfolding a kept(2) .
  next
    case deleted
    from Cons.IH [of "delete_step item st"] show ?thesis
      unfolding a deleted(3) by (auto simp: delete_step_def db_delete_def pk_unique_delete [unfolded db_delete_def])
  next
    case (rejected e)
    from Cons.IH [of "delete_reject_step item e st"] show ?thesis
      unfolding a rejected(3) by (simp add: delete_reject_step_def)
  qed
qed

lemma store_new_all_skipped:
  "(\<forall>(k, n)\<in>set items. Some (dict_digest md5 n) = pd_get cd k) \<Longrightarrow>
   store_new be md5 cd items st = (None, st\<lparr>MySkipStat := MySkipStat st + int (length items)\<rparr>)"
proof (induction items arbitrary: st)
  case Nil
  show ?case by simp
next
  case (Cons a items)
  obtain k0 n0 where a: "a = (k0, n0)" by (cases a)
  from Cons.prems have here: "Some (dict_digest md5 n0) = pd_get cd k0"
    and rest: "\<forall>(k, n)\<in>set items. Some (dict_digest md5 n) = pd_get cd k"
    by (simp_all add: a)
  from Cons.IH [OF rest, of "st\<lparr>MySkipStat := MySkipStat st + 1\<rparr>"] here show ?case
    by (simp add: a add.assoc)
qed

lemma delete_old_nothing:
  "(\<forall>(k, item)\<in>set cur. pd_get ni k \<noteq> None) \<Longrightarrow> delete_old be ni cur st = st"
  by (induction cur arbitrary: st) auto

lemma Store_Destination_table:
  assumes run: "Store_Destination be md5 new_items st = (res, st')" and wf: "snapshot_wf new_items"
  shows "db_ids (table st') \<subseteq> db_ids (table st) \<union> pd_keys new_items
       \<and> (pk_unique (table st) \<longrightarrow> pk_unique (table st'))"
  using run
proof (cases rule: Store_Destination_cases)
  case early
  from store_new_ids_upper [OF early snapshot_wf_ids [OF wf]] store_new_pk [OF early] show ?thesis
    by blast
next
  case (full st1)
  let ?cur = "fst (load_cur md5 (table st) ([], []))"
  from delete_old_table [of be new_items ?cur st1] full(3)
  have sub: "set (table st') \<subseteq> set (table st1)" and pk: "pk_unique (table st1) \<longrightarrow> pk_unique (table st')"
    by simp_all
  from sub have "db_ids (table st') \<subseteq> db_ids (table st1)"
    by (auto simp: db_ids_def)
  with store_new_ids_upper [OF full(1) snapshot_wf_ids [OF wf]] store_new_pk [OF full(1)] pk
  show ?thesis by blast
qed

lemma converge_core:
  assumes run: "Store_Destination be md5 new_items st = (Returned (True, m), st')"
    and nofail: "\<forall>op\<in>set (new_ops st st'). \<not> delete_failed op"
    and wf: "snapshot_wf new_items" and pk: "pk_unique (table st)"
    and faithful: "\<forall>(k, nitem)\<in>set new_items. already_stored md5 (table st) (k, nitem) \<or> str_faithful nitem"
  shows "db_ids (table st') = pd_keys new_items
       \<and> (\<forall>(k, nitem)\<in>set new_items. \<exists>r. db_find (table st') k = Some r \<and> cur_digest md5 r = dict_digest md5 nitem)
       \<and> pk_unique (table st')"
proof -
  note c = reconcile_core [OF run nofail wf pk]
  have items: "\<exists>r. db_find (table st') k = Some r \<and> cur_digest md5 r = dict_digest md5 nitem"
    if m: "(k, nitem) \<in> set new_items" for k nitem
  proof (cases "already_stored md5 (table st) (k, nitem)")
    case True
    with c m have "db_find (table st') k = db_find (table st) k" by blast
    with True show ?thesis
      by (auto simp: already_stored_def split: option.splits)
  next
    case False
    with c m obtain r where u: "upsert_args nitem = Inr r" and f: "db_find (table st') k = Some r"
      by blast
    from faithful m False have "str_faithful nitem" by blast
    from faithful_digest [OF this u] f show ?thesis by simp
  qed
  have sup: "pd_keys new_items \<subseteq> db_ids (table st')"
  proof
    fix y assume "y \<in> pd_keys new_items"
    then obtain k nitem where m: "(k, nitem) \<in> set new_items" and y: "y = py_key k"
      by (auto simp: pd_keys_def)
    from items [OF m] have "db_find (table st') k \<noteq> None" by auto
    then show "y \<in> db_ids (table st')" by (simp add: y db_find_None_iff)
  qed
  have sub: "db_ids (table st') \<subseteq> pd_keys new_items"
  proof
    fix y assume y: "y \<in> db_ids (table st')"
    show "y \<in> pd_keys new_items"
    proof (rule ccontr)
      assume n: "y \<notin> pd_keys new_items"
      with y Store_Destination_table [OF run wf] have "y \<in> db_ids (table st)" by blast
      then obtain x where x: "x \<in> set (table st)" and yx: "y = py_key (field_of_science_id x)"
        by (auto simp: db_ids_def)
      with c n have "db_find (table st') (field_of_science_id x) = None" by blast
      with y yx show False by (simp add: db_find_None_iff)
    qed
  qed
  from sup sub items Store_Destination_table [OF run wf] pk show ?thesis by blast
qed

text \<open>
  C1, as the code has it. After a run that returns \<^verbatim>\<open>True\<close> and in which no delete was
  rejected, on a well-formed snapshot whose records are already stored with an equal
  fingerprint or read back as they are written, the ids of the destination are the ids
  of the snapshot and every destination record has the fingerprint of its source record.
\<close>

theorem converge_after_success:
  assumes "Store_Destination be md5 new_items st = (Returned (True, m), st')"
    and "\<forall>op\<in>set (new_ops st st'). \<not> delete_failed op"
    and "snapshot_wf new_items" and "pk_unique (table st)"
    and "\<forall>(k, nitem)\<in>set new_items. already_stored md5 (table st) (k, nitem) \<or> str_faithful nitem"
  shows "db_ids (table st') = pd_keys new_items
       \<and> (\<forall>(k, nitem)\<in>set new_items. \<exists>r. db_find (table st') k = Some r \<and> cur_digest md5 r = dict_digest md5 nitem)"
  using converge_core [OF assms] by blast

text \<open>
  C1 as it is written does not hold. With a rejected delete the run returns \<^verbatim>\<open>True\<close> and
  the destination keeps an id that the snapshot does not have; and after a run that
  returns \<^verbatim>\<open>True\<close> on a record whose description is the text \<^verbatim>\<open>None\<close>, the canonical
  text of the destination record differs from that of the source record.
\<close>

theorem converge_counterexample:
  "fst (Store_Destination reject_deletes id [(PInt 1, source_record 1 ''Physics'')]
      (start_state [stored_record 9 ''Astrology''])) = Returned (True, [])
   \<and> db_find (table (snd (Store_Destination reject_deletes id [(PInt 1, source_record 1 ''Physics'')]
      (start_state [stored_record 9 ''Astrology'']))))  (PInt 9) = Some (stored_record 9 ''Astrology'')
   \<and> pd_get [(PInt 1, source_record 1 ''Physics'')] (PInt 9) = None
   \<and> Store_Destination accept_all id [(PInt 1, source_record 1 ''None'')] (start_state [])
     = (Returned (True, []),
        \<lparr> table = [stored_record 1 ''None''], journal = [UpsertOk (PInt 1)],
          log = [LogDebug ''FOS save field_of_science_id=1''],
          MyUpdateStat = 1, MyDeleteStat = 0, MySkipStat = 0 \<rparr>)
   \<and> cur_digest id (stored_record 1 ''None'') \<noteq> dict_digest id (source_record 1 ''None'')"
  by code_simp

theorem converge_after_success_witness:
  "Store_Destination accept_all id
      [(PInt 1, source_record 1 ''Physics''), (PInt 2, source_record 2 ''Chemistry'')]
      (start_state [stored_record 1 ''Physics'', stored_record 9 ''Astrology''])
     = (Returned (True, []),
        \<lparr> table = [stored_record 1 ''Physics'', stored_record 2 ''Chemistry''],
          journal = [UpsertOk (PInt 2), DeleteOk (PInt 9)],
          log = [LogDebug ''FOS save field_of_science_id=2'', LogInfo ''FOS delete field_of_science_id=None''],
          MyUpdateStat = 1, MyDeleteStat = 1, MySkipStat = 1 \<rparr>)
   \<and> db_ids [stored_record 1 ''Physics'', stored_record 2 ''Chemistry'']
     = pd_keys [(PInt 1, source_record 1 ''Physics''), (PInt 2, source_record 2 ''Chemistry'')]"
proof -
  let ?src = "[(PInt 1, source_record 1 ''Physics''), (PInt 2, source_record 2 ''Chemistry'')]"
  let ?t = "[stored_record 1 ''Physics'', stored_record 9 ''Astrology'']"
  let ?st' = "\<lparr> table = [stored_record 1 ''Physics'', stored_record 2 ''Chemistry''],
          journal = [UpsertOk (PInt 2), DeleteOk (PInt 9)],
          log = [LogDebug ''FOS save field_of_science_id=2'', LogInfo ''FOS delete field_of_science_id=None''],
          MyUpdateStat = 1, MyDeleteStat = 1, MySkipStat = 1 \<rparr>"
  have e: "Store_Destination accept_all id ?src (start_state ?t) = (Returned (True, []), ?st')"
    by code_simp
  have nf: "\<forall>op\<in>set (new_ops (start_state ?t) ?st'). \<not> delete_failed op"
    by (simp add: new_ops_def start_state_def)
  have wf: "snapshot_wf ?src" by code_simp
  have pk: "pk_unique (table (start_state ?t))" by code_simp
  have f1: "str_faithful (source_record 1 ''Physics'')" by code_simp
  have f2: "str_faithful (source_record 2 ''Chemistry'')" by code_simp
  have fa: "\<forall>(k, nitem)\<in>set ?src. already_stored id (table (start_state ?t)) (k, nitem) \<or> str_faithful nitem"
    using f1 f2 by simp
  from converge_after_success [OF e nf wf pk fa] e show ?thesis
    by simp
qed

section \<open>A second run on the same snapshot\<close>

text \<open>
  C2, as the code has it. When a first run returns \<^verbatim>\<open>True\<close> with no delete rejected, on a
  well-formed snapshot whose records are already stored with an equal fingerprint or
  read back as they are written, a second run on the same snapshot, with the counters
  reset, writes nothing: it returns \<^verbatim>\<open>True\<close>, updates and deletes are zero, and the skips
  are as many as the destination has records.
\<close>

theorem second_run_skips_all:
  assumes run1: "Store_Destination be md5 new_items st = (Returned (True, m), st1)"
    and nofail: "\<forall>op\<in>set (new_ops st st1). \<not> delete_failed op"
    and wf: "snapshot_wf new_items" and pk: "pk_unique (table st)"
    and faithful: "\<forall>(k, nitem)\<in>set new_items. already_stored md5 (table st) (k, nitem) \<or> str_faithful nitem"
    and run2: "Store_Destination be2 md5 new_items (reset_stats st1) = (res2, st2)"
  shows "res2 = Returned (True, []) \<and> MyUpdateStat st2 = 0 \<and> MyDeleteStat st2 = 0
       \<and> MySkipStat st2 = int (length (table st2)) \<and> table st2 = table st1
       \<and> new_ops (reset_stats st1) st2 = []"
proof -
  let ?st = "reset_stats st1"
  let ?cd = "snd (load_cur md5 (table ?st) ([], []))"
  let ?cur = "fst (load_cur md5 (table ?st) ([], []))"
  from converge_core [OF run1 nofail wf pk faithful] have
    ids: "db_ids (table st1) = pd_keys new_items"
    and fp: "\<forall>(k, nitem)\<in>set new_items. \<exists>r. db_find (table st1) k = Some r \<and> cur_digest md5 r = dict_digest md5 nitem"
    and pk1: "pk_unique (table st1)"
    by blast+
  have t: "table ?st = table st1" by (simp add: reset_stats_def)
  have skip1: "Some (dict_digest md5 n) = pd_get ?cd k" if m: "(k, n) \<in> set new_items" for k n
  proof -
    from m fp have "already_stored md5 (table st1) (k, n)"
      by (auto simp: already_stored_def)
    then show ?thesis
      using load_cur_skip [OF pk1, of md5 n k] by (simp add: t)
  qed
  then have skip: "\<forall>(k, n)\<in>set new_items. Some (dict_digest md5 n) = pd_get ?cd k"
    by blast
  have keep1: "pd_get new_items k \<noteq> None" if m: "(k, item) \<in> set ?cur" for k item
  proof -
    from m have "py_key k \<in> pd_keys ?cur" by (force simp: pd_keys_def)
    then have "py_key k \<in> pd_keys new_items"
      by (simp add: load_cur_keys t ids)
    then show ?thesis by (simp add: pd_get_None_iff)
  qed
  then have keep: "\<forall>(k, item)\<in>set ?cur. pd_get new_items k \<noteq> None"
    by blast
  let ?st2 = "?st\<lparr>MySkipStat := MySkipStat ?st + int (length new_items)\<rparr>"
  have "Store_Destination be2 md5 new_items ?st = (Returned (True, []), ?st2)"
    by (simp add: Store_Destination_def case_prod_unfold store_new_all_skipped [OF skip]
        delete_old_nothing [OF keep])
  with run2 have r: "res2 = Returned (True, [])" and s: "st2 = ?st2" by simp_all
  from wf have "length new_items = card (pd_keys new_items)"
    by (simp add: snapshot_wf_def pd_distinct_length)
  also have "\<dots> = length (table st1)"
    using pk_unique_length [OF pk1] ids by simp
  finally have len: "length new_items = length (table st1)" .
  from r s len show ?thesis
    by (simp add: reset_stats_def new_ops_def)
qed

text \<open>
  C2 as it is written does not hold. A record whose description is the text \<^verbatim>\<open>None\<close> is
  written again by the second run, its stored form not having the source's canonical
  text; and when the delete is rejected in both runs, the second run skips one record
  while the destination has two.
\<close>

theorem second_run_counterexample:
  "Store_Destination accept_all id [(PInt 1, source_record 1 ''None'')] (start_state [])
     = (Returned (True, []),
        \<lparr> table = [stored_record 1 ''None''], journal = [UpsertOk (PInt 1)],
          log = [LogDebug ''FOS save field_of_science_id=1''],
          MyUpdateStat = 1, MyDeleteStat = 0, MySkipStat = 0 \<rparr>)
   \<and> Store_Destination accept_all id [(PInt 1, source_record 1 ''None'')]
        (reset_stats \<lparr> table = [stored_record 1 ''None''], journal = [UpsertOk (PInt 1)],
          log = [LogDebug ''FOS save field_of_science_id=1''],
          MyUpdateStat = 1, MyDeleteStat = 0, MySkipStat = 0 \<rparr>)
     = (Returned (True, []),
        \<lparr> table = [stored_record 1 ''None''], journal = [UpsertOk (PInt 1), UpsertOk (PInt 1)],
          log = [LogDebug ''FOS save field_of_science_id=1'', LogDebug ''FOS save field_of_science_id=1''],
          MyUpdateStat = 1, MyDeleteStat = 0, MySkipStat = 0 \<rparr>)
   \<and> Store_Destination reject_deletes id [(PInt 1, source_record 1 ''Physics'')]
        (start_state [stored_record 1 ''Physics'', stored_record 9 ''Astrology''])
     = (Returned (True, []),
        \<lparr> table = [stored_record 1 ''Physics'', stored_record 9 ''Astrology''],
          journal = [DeleteFailed (PInt 9) (IntegrityError ''still referenced'')],
          log = [LogError ''IntegrityError deleting ID=9: still referenced''],
          MyUpdateStat = 0, MyDeleteStat = 0, MySkipStat = 1 \<rparr>)
   \<and> Store_Destination reject_deletes id [(PInt 1, source_record 1 ''Physics'')]
        (reset_stats \<lparr> table = [stored_record 1 ''Physics'', stored_record 9 ''Astrology''],
          journal = [DeleteFailed (PInt 9) (IntegrityError ''still referenced'')],
          log = [LogError ''IntegrityError deleting ID=9: still referenced''],
          MyUpdateStat = 0, MyDeleteStat = 0, MySkipStat = 1 \<rparr>)
     = (Returned (True, []),
        \<lparr> table = [stored_record 1 ''Physics'', stored_record 9 ''Astrology''],
          journal = [DeleteFailed (PInt 9) (IntegrityError ''still referenced''),
                     DeleteFailed (PInt 9) (IntegrityError ''still referenced'')],
          log = [LogError ''IntegrityError deleting ID=9: still referenced'',
                 LogError ''IntegrityError deleting ID=9: still referenced''],
          MyUpdateStat = 0, MyDeleteStat = 0, MySkipStat = 1 \<rparr>)"
  by code_simp

theorem second_run_skips_all_witness:
  "Store_Destination accept_all id
      [(PInt 1, source_record 1 ''Physics''), (PInt 2, source_record 2 ''Chemistry'')]
      (start_state [stored_record 9 ''Astrology''])
     = (Returned (True, []),
        \<lparr> table = [stored_record 1 ''Physics'', stored_record 2 ''Chemistry''],
          journal = [UpsertOk (PInt 1), UpsertOk (PInt 2), DeleteOk (PInt 9)],
          log = [LogDebug ''FOS save field_of_science_id=1'', LogDebug ''FOS save field_of_science_id=2'',
                 LogInfo ''FOS delete field_of_science_id=None''],
          MyUpdateStat = 2, MyDeleteStat = 1, MySkipStat = 0 \<rparr>)
   \<and> fst (Store_Destination accept_all id
      [(PInt 1, source_record 1 ''Physics''), (PInt 2, source_record 2 ''Chemistry'')]
      (reset_stats \<lparr> table = [stored_record 1 ''Physics'', stored_record 2 ''Chemistry''],
          journal = [UpsertOk (PInt 1), UpsertOk (PInt 2), DeleteOk (PInt 9)],
          log = [LogDebug ''FOS save field_of_science_id=1'', LogDebug ''FOS save field_of_science_id=2'',
                 LogInfo ''FOS delete field_of_science_id=None''],
          MyUpdateStat = 2, MyDeleteStat = 1, MySkipStat = 0 \<rparr>)) = Returned (True, [])
   \<and> MySkipStat (snd (Store_Destination accept_all id
      [(PInt 1, source_record 1 ''Physics''), (PInt 2, source_record 2 ''Chemistry'')]
      (reset_stats \<lparr> table = [stored_record 1 ''Physics'', stored_record 2 ''Chemistry''],
          journal = [UpsertOk (PInt 1), UpsertOk (PInt 2), DeleteOk (PInt 9)],
          log = [LogDebug ''FOS save field_of_science_id=1'', LogDebug ''FOS save field_of_science_id=2'',
                 LogInfo ''FOS delete field_of_science_id=None''],
          MyUpdateStat = 2, MyDeleteStat = 1, MySkipStat = 0 \<rparr>))) = 2"
proof -
  let ?src = "[(PInt 1, source_record 1 ''Physics''), (PInt 2, source_record 2 ''Chemistry'')]"
  let ?t = "[stored_record 9 ''Astrology'']"
  let ?st1 = "\<lparr> table = [stored_record 1 ''Physics'', stored_record 2 ''Chemistry''],
          journal = [UpsertOk (PInt 1), UpsertOk (PInt 2), DeleteOk (PInt 9)],
          log = [LogDebug ''FOS save field_of_science_id=1'', LogDebug ''FOS save field_of_science_id=2'',
                 LogInfo ''FOS delete field_of_science_id=None''],
          MyUpdateStat = 2, MyDeleteStat = 1, MySkipStat = 0 \<rparr>"
  let ?run2 = "Store_Destination accept_all id ?src (reset_stats ?st1)"
  have e: "Store_Destination accept_all id ?src (start_state ?t) = (Returned (True, []), ?st1)"
    by code_simp
  have nf: "\<forall>op\<in>set (new_ops (start_state ?t) ?st1). \<not> delete_failed op"
    by (simp add: new_ops_def start_state_def)
  have wf: "snapshot_wf ?src" by code_simp
  have pk: "pk_unique (table (start_state ?t))" by code_simp
  have f1: "str_faithful (source_record 1 ''Physics'')" by code_simp
  have f2: "str_faithful (source_record 2 ''Chemistry'')" by code_simp
  have fa: "\<forall>(k, nitem)\<in>set ?src. already_stored id (table (start_state ?t)) (k, nitem) \<or> str_faithful nitem"
    using f1 f2 by simp
  have e2: "?run2 = (fst ?run2, snd ?run2)" by simp
  from second_run_skips_all [OF e nf wf pk fa e2] have "fst ?run2 = Returned (True, [])"
    and "MySkipStat (snd ?run2) = int (length (table (snd ?run2)))" and "table (snd ?run2) = table ?st1"
    by blast+
  with e show ?thesis by simp
qed

section \<open>Snapshots read from the source\<close>

lemma pd_set_mem_key: "(k', r) \<in> set (pd_set d k v) \<Longrightarrow> (k', r) \<in> set d \<or> (r = v \<and> py_eq k' k)"
  by (induction d) (auto split: if_splits)

lemma retrieve_rows_entries_key:
  "retrieve_rows COLS rows acc = Inr DATA \<Longrightarrow> (key, r) \<in> set DATA \<Longrightarrow>
   (key, r) \<in> set acc \<or> (\<exists>row\<in>set rows. \<exists>k'. read_row COLS row = Inr (k', r) \<and> py_eq key k')"
proof (induction rows arbitrary: acc)
  case Nil
  then show ?case by simp
next
  case (Cons row rows)
  from Cons.prems(1) obtain k0 r0 where rr: "read_row COLS row = Inr (k0, r0)"
    and rest: "retrieve_rows COLS rows (pd_set acc k0 r0) = Inr DATA"
    by (auto split: sum.splits)
  from Cons.IH [OF rest Cons.prems(2)] show ?case
  proof
    assume "(key, r) \<in> set (pd_set acc k0 r0)"
    from pd_set_mem_key [OF this] rr show ?thesis by auto
  next
    assume "\<exists>row\<in>set rows. \<exists>k'. read_row COLS row = Inr (k', r) \<and> py_eq key k'"
    then show ?thesis by auto
  qed
qed

text \<open>Every snapshot that \<^verbatim>\<open>Retrieve_Source\<close> returns is well formed.\<close>

lemma retrieve_source_wf:
  assumes "Retrieve_Source (QueryRows COLS rows) lg = (Inr DATA, lg')"
  shows "snapshot_wf DATA"
proof -
  from assms have rr: "retrieve_rows COLS rows [] = Inr DATA"
    by (simp add: Retrieve_Source_def)
  have d: "pd_distinct DATA"
    using retrieve_rows_distinct [OF rr] by simp
  have "distinct (map fst r) \<and> (case map_of r ''field_of_science_id'' of None \<Rightarrow> False | Some v \<Rightarrow> py_eq v key)"
    if m: "(key, r) \<in> set DATA" for key r
  proof -
    from retrieve_rows_entries_key [OF rr m] obtain row k' where
      r: "read_row COLS row = Inr (k', r)" and k: "py_eq key k'"
      by auto
    from read_row_view [OF r] have v: "map_of r = source_view (rd_dict (zip COLS row))"
      and dr: "distinct (map fst r)"
      and id: "map_of (rd_dict (zip COLS row)) ''field_of_science_id'' = Some k'"
      by simp_all
    from v id have "map_of r ''field_of_science_id'' = Some k'"
      by (simp add: source_view_def)
    with dr k show ?thesis by (simp add: py_eq_def)
  qed
  with d show ?thesis by (auto simp: snapshot_wf_def)
qed

end
